theory Spec2Isabelle
  imports Main "HOL-Library.Word"
begin

section \<open>Strings of the source language\<close>

text \<open>
  A string of the source is a sequence of 16-bit code units. Literals of the source are
  ASCII and are written through \<open>asc\<close>. The numbers that occur (line and column
  numbers) are non-negative integers below \<open>2 ^ 53\<close>, where the numbers of the source are
  exact; they are modelled as naturals.
\<close>

type_synonym jschar = "16 word"
type_synonym jsstr = "jschar list"

definition asc :: "string \<Rightarrow> jsstr" where
  "asc s = map (\<lambda>c. word_of_nat (of_char c)) s"

definition is_digit :: "jschar \<Rightarrow> bool" where
  "is_digit c = (48 \<le> c \<and> c \<le> 57)"

text \<open>The characters that \<open>.\<close> does not match: LF, CR, U+2028 and U+2029.\<close>

definition is_line_terminator :: "jschar \<Rightarrow> bool" where
  "is_line_terminator c = (c = 10 \<or> c = 13 \<or> c = 8232 \<or> c = 8233)"

definition not_line_terminator :: "jschar \<Rightarrow> bool" where
  "not_line_terminator c = (\<not> is_line_terminator c)"

text \<open>Control characters: U+0000 to U+001F and U+007F to U+009F.\<close>

definition is_control :: "jschar \<Rightarrow> bool" where
  "is_control c = (c \<le> 31 \<or> (127 \<le> c \<and> c \<le> 159))"

text \<open>
  \<open>n.toString()\<close> for a line or column number \<open>n\<close>, a non-negative integer below
  \<open>2 ^ 53\<close>: its decimal digits. (A number of the source from \<open>2 ^ 53\<close> on is printed with
  the fewest digits that identify it, and in exponent form from \<open>10 ^ 21\<close> on; no line or
  column number of a file is that large.)
\<close>

definition digit_char :: "nat \<Rightarrow> jschar" where
  "digit_char d = word_of_nat (48 + d)"

fun toString :: "nat \<Rightarrow> jsstr" where
  "toString n = (if n < 10 then [digit_char n] else toString (n div 10) @ [digit_char (n mod 10)])"

declare toString.simps [simp del]

text \<open>
  The value an integer has as a number of the source: itself below \<open>2 ^ 53\<close>, and from
  there on the nearest number with a significand of 53 bits, the even one of two that
  are equally near.
\<close>

fun bit_length :: "nat \<Rightarrow> nat" where
  "bit_length n = (if n = 0 then 0 else Suc (bit_length (n div 2)))"

declare bit_length.simps [simp del]

definition to_number :: "nat \<Rightarrow> nat" where
  "to_number v =
     (if v < 2 ^ 53 then v
      else let e = bit_length v - 53;
               q = v div 2 ^ e;
               r = v mod 2 ^ e;
               h = 2 ^ (e - 1);
               q = (if h < r \<or> (r = h \<and> odd q) then Suc q else q)
           in q * 2 ^ e)"

text \<open>
  \<open>parseInt(s, 10)\<close> on the strings it is given here, the captures of \<open>\d+\<close>: the value
  of the leading decimal digits, as a number of the source. (A run of more than 308
  digits can give \<open>Infinity\<close>, which is not a value of the model.)
\<close>

definition digit_val :: "jschar \<Rightarrow> nat" where
  "digit_val c = unat c - 48"

definition parseInt :: "jsstr \<Rightarrow> nat" where
  "parseInt s = to_number (foldl (\<lambda>a c. 10 * a + digit_val c) 0 (takeWhile is_digit s))"

section \<open>Regular expressions\<close>

text \<open>
  The regular expressions of the source are sequences of items: a character class, a
  greedy repetition of a character class (\<open>+\<close>, \<open>*\<close>, \<open>?\<close>), the anchors \<open>^\<close> and \<open>$\<close>,
  and the parentheses of a capture group. \<open>bt\<close> is the backtracking matcher: a greedy
  repetition takes as many characters as it can and gives them back one at a time until
  the rest of the expression matches.
\<close>

datatype item =
    One "jschar \<Rightarrow> bool"
  | Rep "jschar \<Rightarrow> bool" nat "nat option"
  | Bol
  | Eol
  | Open
  | Close

fun first_some :: "('a \<Rightarrow> 'b option) \<Rightarrow> 'a list \<Rightarrow> 'b option" where
  "first_some f [] = None"
| "first_some f (x # xs) = (case f x of Some y \<Rightarrow> Some y | None \<Rightarrow> first_some f xs)"

definition candidates :: "(jschar \<Rightarrow> bool) \<Rightarrow> nat \<Rightarrow> nat option \<Rightarrow> jsstr \<Rightarrow> nat list" where
  "candidates P lo hi s =
     (let n = length (takeWhile P s);
          m = (case hi of None \<Rightarrow> n | Some h \<Rightarrow> min h n)
      in rev [lo..<Suc m])"

text \<open>The largest number of characters a repetition can take at the beginning of \<open>t\<close>.\<close>

definition rep_max :: "(jschar \<Rightarrow> bool) \<Rightarrow> nat option \<Rightarrow> jsstr \<Rightarrow> nat" where
  "rep_max P hi t =
     (case hi of None \<Rightarrow> length (takeWhile P t) | Some h \<Rightarrow> min h (length (takeWhile P t)))"

text \<open>
  \<open>bt items s i opens caps\<close>: match \<open>items\<close> against \<open>s\<close> from position \<open>i\<close>; \<open>opens\<close> holds
  the start positions of the groups that are open, \<open>caps\<close> the captures so far. The
  result is the end position and the captures.
\<close>

fun bt :: "item list \<Rightarrow> jsstr \<Rightarrow> nat \<Rightarrow> nat list \<Rightarrow> jsstr list \<Rightarrow> (nat \<times> jsstr list) option" where
  "bt [] s i opens caps = Some (i, caps)"
| "bt (One P # r) s i opens caps =
     (if i < length s \<and> P (s ! i) then bt r s (Suc i) opens caps else None)"
| "bt (Rep P lo hi # r) s i opens caps =
     first_some (\<lambda>k. bt r s (i + k) opens caps) (candidates P lo hi (drop i s))"
| "bt (Bol # r) s i opens caps = (if i = 0 then bt r s i opens caps else None)"
| "bt (Eol # r) s i opens caps = (if i = length s then bt r s i opens caps else None)"
| "bt (Open # r) s i opens caps = bt r s i (i # opens) caps"
| "bt (Close # r) s i opens caps =
     (case opens of
        [] \<Rightarrow> None
      | b # bs \<Rightarrow> bt r s i bs (caps @ [take (i - b) (drop b s)]))"

text \<open>
  \<open>s.match(re)\<close> for an expression without the global flag: the first start position
  at which the expression matches; the result holds the matched text and the captures.
\<close>

definition regex_match :: "item list \<Rightarrow> jsstr \<Rightarrow> (jsstr \<times> jsstr list) option" where
  "regex_match re s =
     first_some
       (\<lambda>i. case bt re s i [] [] of
               None \<Rightarrow> None
             | Some (e, caps) \<Rightarrow> Some (take (e - i) (drop i s), caps))
       [0..<Suc (length s)]"

definition lit :: "jsstr \<Rightarrow> item list" where
  "lit s = map (\<lambda>x. One (\<lambda>c. c = x)) s"

abbreviation plus :: "(jschar \<Rightarrow> bool) \<Rightarrow> item" where
  "plus P \<equiv> Rep P 1 None"

abbreviation star :: "(jschar \<Rightarrow> bool) \<Rightarrow> item" where
  "star P \<equiv> Rep P 0 None"

abbreviation opt :: "(jschar \<Rightarrow> bool) \<Rightarrow> item" where
  "opt P \<equiv> Rep P 0 (Some 1)"

section \<open>Location codec (runtime.ts, and the loader's template string)\<close>

record SourceLocation =
  loc_file :: jsstr
  loc_line :: nat
  loc_column :: nat
  loc_raw :: jsstr

text \<open>The loader's \<^verbatim>\<open>`${filePath}:${line}:${column}`\<close>.\<close>

definition sourceLocation :: "jsstr \<Rightarrow> nat \<Rightarrow> nat \<Rightarrow> jsstr" where
  "sourceLocation filePath l c = filePath @ asc '':'' @ toString l @ asc '':'' @ toString c"

text \<open>\<^verbatim>\<open>/^(.+):(\d+):(\d+)$/\<close>\<close>

definition location_re :: "item list" where
  "location_re =
     [Bol, Open, plus not_line_terminator, Close, One (\<lambda>c. c = 58),
      Open, plus is_digit, Close, One (\<lambda>c. c = 58),
      Open, plus is_digit, Close, Eol]"

definition parseSourceLocation :: "jsstr \<Rightarrow> SourceLocation option" where
  "parseSourceLocation sourceString =
     (if sourceString = [] then None
      else case regex_match location_re sourceString of
             None \<Rightarrow> None
           | Some (m, caps) \<Rightarrow>
               (case caps of
                  [f, l, c] \<Rightarrow>
                    Some \<lparr>loc_file = f, loc_line = parseInt l, loc_column = parseInt c,
                          loc_raw = sourceString\<rparr>
                | _ \<Rightarrow> None))"


text \<open>
  The part of \<open>location_re\<close> after the file group, and its part after the line group;
  the proofs about the codec go through them.
\<close>

definition location_tail2 :: "item list" where
  "location_tail2 = [Open, plus is_digit, Close, Eol]"

definition location_tail1 :: "item list" where
  "location_tail1 =
     One (\<lambda>c. c = 58) # Open # plus is_digit # Close # One (\<lambda>c. c = 58) # location_tail2"

section \<open>Opening the editor (runtime.ts)\<close>

datatype js_error = URIError | TypeError | SyntaxError | ValidationError

subsection \<open>\<open>encodeURIComponent\<close>\<close>

text \<open>
  Letters, digits and \<open>- _ . ! ~ * ' ( )\<close> are kept; every other character is written
  as the percent-encoded bytes of its UTF-8 form. A surrogate code unit that is not part
  of a pair makes the function throw \<open>URIError\<close>.
\<close>

definition uriUnreserved :: "jschar \<Rightarrow> bool" where
  "uriUnreserved c =
     ((65 \<le> c \<and> c \<le> 90) \<or> (97 \<le> c \<and> c \<le> 122) \<or> (48 \<le> c \<and> c \<le> 57) \<or>
      c \<in> set [45, 95, 46, 33, 126, 42, 39, 40, 41])"

definition is_lead_surrogate :: "jschar \<Rightarrow> bool" where
  "is_lead_surrogate c = (55296 \<le> c \<and> c \<le> 56319)"

definition is_trail_surrogate :: "jschar \<Rightarrow> bool" where
  "is_trail_surrogate c = (56320 \<le> c \<and> c \<le> 57343)"

definition code_point :: "jschar \<Rightarrow> jschar \<Rightarrow> nat" where
  "code_point lead trail = (unat lead - 55296) * 1024 + (unat trail - 56320) + 65536"

definition utf8 :: "nat \<Rightarrow> nat list" where
  "utf8 cp =
     (if cp < 128 then [cp]
      else if cp < 2048 then [192 + cp div 64, 128 + cp mod 64]
      else if cp < 65536 then [224 + cp div 4096, 128 + (cp div 64) mod 64, 128 + cp mod 64]
      else [240 + cp div 262144, 128 + (cp div 4096) mod 64, 128 + (cp div 64) mod 64,
            128 + cp mod 64])"

definition hex_upper :: "nat \<Rightarrow> jschar" where
  "hex_upper n = (if n < 10 then word_of_nat (48 + n) else word_of_nat (55 + n))"

definition percent :: "nat \<Rightarrow> jsstr" where
  "percent b = [37, hex_upper (b div 16), hex_upper (b mod 16)]"

definition percent_utf8 :: "nat \<Rightarrow> jsstr" where
  "percent_utf8 cp = concat (map percent (utf8 cp))"

fun encodeURIComponent :: "jsstr \<Rightarrow> js_error + jsstr" where
  "encodeURIComponent [] = Inr []"
| "encodeURIComponent (c # s) =
     (if uriUnreserved c then
        (case encodeURIComponent s of Inl e \<Rightarrow> Inl e | Inr r \<Rightarrow> Inr (c # r))
      else if is_lead_surrogate c then
        (case s of
           [] \<Rightarrow> Inl URIError
         | d # s' \<Rightarrow>
             if is_trail_surrogate d then
               (case encodeURIComponent s' of
                  Inl e \<Rightarrow> Inl e
                | Inr r \<Rightarrow> Inr (percent_utf8 (code_point c d) @ r))
             else Inl URIError)
      else if is_trail_surrogate c then Inl URIError
      else
        (case encodeURIComponent s of
           Inl e \<Rightarrow> Inl e
         | Inr r \<Rightarrow> Inr (percent_utf8 (unat c) @ r)))"

subsection \<open>\<open>String.prototype.replace\<close> with a string pattern\<close>

text \<open>
  \<open>s.replace(pat, rep)\<close> with strings \<open>pat\<close> and \<open>rep\<close>: the first position at which
  \<open>pat\<close> occurs in \<open>s\<close> is looked up; without one, \<open>s\<close> is returned; otherwise the text at
  that position is replaced by \<open>rep\<close>, in which \<open>$$\<close>, \<open>$&\<close>, \<open>$`\<close> and \<open>$'\<close> stand for a
  dollar sign, the matched text, the text before it and the text after it.
\<close>

fun indexOf :: "jsstr \<Rightarrow> jsstr \<Rightarrow> nat option" where
  "indexOf pat [] = (if pat = [] then Some 0 else None)"
| "indexOf pat (c # s) =
     (if take (length pat) (c # s) = pat then Some 0
      else case indexOf pat s of None \<Rightarrow> None | Some i \<Rightarrow> Some (Suc i))"

fun getSubstitution :: "jsstr \<Rightarrow> jsstr \<Rightarrow> jsstr \<Rightarrow> jsstr \<Rightarrow> jsstr" where
  "getSubstitution matched preceding following [] = []"
| "getSubstitution matched preceding following [c] = [c]"
| "getSubstitution matched preceding following (c # d # t) =
     (if c = 36 then
        (if d = 36 then 36 # getSubstitution matched preceding following t
         else if d = 38 then matched @ getSubstitution matched preceding following t
         else if d = 96 then preceding @ getSubstitution matched preceding following t
         else if d = 39 then following @ getSubstitution matched preceding following t
         else c # getSubstitution matched preceding following (d # t))
      else c # getSubstitution matched preceding following (d # t))"

definition replace :: "jsstr \<Rightarrow> jsstr \<Rightarrow> jsstr \<Rightarrow> jsstr" where
  "replace s pat rep =
     (case indexOf pat s of
        None \<Rightarrow> s
      | Some i \<Rightarrow>
          (let preceding = take i s; following = drop (i + length pat) s
           in preceding @ getSubstitution pat preceding following rep @ following))"

subsection \<open>\<open>openInEditor\<close>\<close>

record EditorConfig =
  handler :: jsstr
  useAbsolutePath :: "bool option"

text \<open>The parameter type \<open>string | EditorConfig\<close>.\<close>

datatype editor = Preset jsstr | Custom EditorConfig

definition EDITOR_HANDLERS :: "(jsstr \<times> EditorConfig) list" where
  "EDITOR_HANDLERS =
     [(asc ''vscode'',
       \<lparr>handler = asc ''vscode://file/{file}:{line}:{column}'', useAbsolutePath = Some True\<rparr>),
      (asc ''cursor'',
       \<lparr>handler = asc ''cursor://file/{file}:{line}:{column}'', useAbsolutePath = Some True\<rparr>),
      (asc ''webstorm'',
       \<lparr>handler = asc ''webstorm://open?file={file}&line={line}&column={column}'',
        useAbsolutePath = Some True\<rparr>),
      (asc ''idea'',
       \<lparr>handler = asc ''idea://open?file={file}&line={line}'', useAbsolutePath = Some True\<rparr>),
      (asc ''sublime'',
       \<lparr>handler = asc ''subl://{file}:{line}:{column}'', useAbsolutePath = Some True\<rparr>),
      (asc ''atom'',
       \<lparr>handler = asc ''atom://open?url=file://{file}&line={line}&column={column}'',
        useAbsolutePath = Some True\<rparr>),
      (asc ''phpstorm'',
       \<lparr>handler = asc ''phpstorm://open?file={file}&line={line}'', useAbsolutePath = Some True\<rparr>)]"

text \<open>
  \<open>EDITOR_HANDLERS\<close> is a plain object, so a key that names a member of
  \<open>Object.prototype\<close> finds that member: a value that is not undefined and has no
  \<open>handler\<close>, on which \<open>url.replace\<close> throws.
\<close>

definition object_prototype_keys :: "jsstr list" where
  "object_prototype_keys =
     [asc ''constructor'', asc ''hasOwnProperty'', asc ''isPrototypeOf'',
      asc ''propertyIsEnumerable'', asc ''toLocaleString'', asc ''toString'', asc ''valueOf'',
      asc ''__proto__'', asc ''__defineGetter__'', asc ''__defineSetter__'',
      asc ''__lookupGetter__'', asc ''__lookupSetter__'']"

text \<open>
  \<open>openInEditor has_window location editorConfig\<close>: without a window nothing happens
  (\<open>Inr None\<close>); otherwise the result is the URL given to \<open>window.open\<close>, or the error
  thrown on the way.
\<close>

definition openInEditor :: "bool \<Rightarrow> SourceLocation \<Rightarrow> editor \<Rightarrow> js_error + jsstr option" where
  "openInEditor has_window location editorConfig =
     (if \<not> has_window then Inr None
      else
        let config =
              (case editorConfig of
                 Preset name \<Rightarrow>
                   (case map_of EDITOR_HANDLERS name of
                      Some c \<Rightarrow> Some c
                    | None \<Rightarrow>
                        if name \<in> set object_prototype_keys then None
                        else map_of EDITOR_HANDLERS (asc ''vscode''))
               | Custom c \<Rightarrow> Some c)
        in case config of
             None \<Rightarrow> Inl TypeError
           | Some config \<Rightarrow>
               (let url = handler config;
                    filePath = (if useAbsolutePath config \<noteq> Some False then loc_file location
                                else loc_file location)
                in case encodeURIComponent filePath of
                     Inl e \<Rightarrow> Inl e
                   | Inr encoded \<Rightarrow>
                       (let url = replace url (asc ''{file}'') encoded;
                            url = replace url (asc ''{line}'') (toString (loc_line location));
                            url = replace url (asc ''{column}'') (toString (loc_column location))
                        in Inr (Some url))))"

text \<open>
  What the specification asks of the substitution: every occurrence of the pattern is
  replaced, literally. It is the second definition, written from the specification, that
  \<open>replace\<close> is compared with.
\<close>

fun replace_every :: "jsstr \<Rightarrow> jsstr \<Rightarrow> jsstr \<Rightarrow> jsstr" where
  "replace_every [] pat rep = []"
| "replace_every (c # s) pat rep =
     (if pat \<noteq> [] \<and> take (length pat) (c # s) = pat
      then rep @ replace_every (drop (length pat) (c # s)) pat rep
      else c # replace_every s pat rep)"

text \<open>Replacing the leftmost occurrence only, literally.\<close>

fun replace_leftmost :: "jsstr \<Rightarrow> jsstr \<Rightarrow> jsstr \<Rightarrow> jsstr" where
  "replace_leftmost [] pat rep = (if pat = [] then rep else [])"
| "replace_leftmost (c # s) pat rep =
     (if take (length pat) (c # s) = pat then rep @ drop (length pat) (c # s)
      else c # replace_leftmost s pat rep)"

section \<open>The display path of a tooltip (runtime.ts, \<open>getDisplayPath\<close>)\<close>

text \<open>\<^verbatim>\<open>/([^/\\]+:\d+:\d+)$/\<close>\<close>

definition is_separator :: "jschar \<Rightarrow> bool" where
  "is_separator c = (c = 47 \<or> c = 92)"

definition display_re :: "item list" where
  "display_re =
     [Open, plus (\<lambda>c. \<not> is_separator c), One (\<lambda>c. c = 58), plus is_digit,
      One (\<lambda>c. c = 58), plus is_digit, Close, Eol]"

text \<open>\<open>s.split(re)\<close> for an expression that matches one character of a class.\<close>

fun split :: "(jschar \<Rightarrow> bool) \<Rightarrow> jsstr \<Rightarrow> jsstr list" where
  "split P [] = [] # []"
| "split P (c # s) =
     (if P c then [] # split P s
      else case split P s of [] \<Rightarrow> [c] # [] | x # xs \<Rightarrow> (c # x) # xs)"

definition getDisplayPath :: "jsstr \<Rightarrow> jsstr \<Rightarrow> jsstr" where
  "getDisplayPath tooltipPathDisplay fullPath =
     (if tooltipPathDisplay = asc ''relative'' then
        (case regex_match display_re fullPath of
           None \<Rightarrow> fullPath
         | Some (m, caps) \<Rightarrow>
             (let pathParts = split is_separator fullPath
              in if length pathParts \<ge> 2 then
                   (let fileName = pathParts ! (length pathParts - 1);
                        parentDir = pathParts ! (length pathParts - 2)
                    in parentDir @ asc ''/'' @ fileName)
                 else (case caps of [] \<Rightarrow> fullPath | g # _ \<Rightarrow> g)))
      else fullPath)"


section \<open>The loader (\<open>turbopackSourceLoader\<close>)\<close>

subsection \<open>Options\<close>

text \<open>
  The loader gets its options as a value of the build configuration. Objects keep their
  keys in insertion order, which is the order \<open>JSON.stringify\<close> writes them in; a key
  occurs once in an object. Numbers are the integers.
\<close>

datatype json =
    JNull
  | JBool bool
  | JNumber int
  | JString jsstr
  | JArray "json list"
  | JObject "(jsstr \<times> json) list"

text \<open>Property access \<open>o.k\<close>; \<open>None\<close> is \<open>undefined\<close>.\<close>

fun get_prop :: "json \<Rightarrow> jsstr \<Rightarrow> json option" where
  "get_prop (JObject kvs) k = map_of kvs k"
| "get_prop v k = None"

fun truthy :: "json option \<Rightarrow> bool" where
  "truthy None = False"
| "truthy (Some JNull) = False"
| "truthy (Some (JBool b)) = b"
| "truthy (Some (JNumber n)) = (n \<noteq> 0)"
| "truthy (Some (JString s)) = (s \<noteq> [])"
| "truthy (Some (JArray xs)) = True"
| "truthy (Some (JObject kvs)) = True"

text \<open>\<open>x || d\<close>\<close>

definition or_value :: "json option \<Rightarrow> json \<Rightarrow> json" where
  "or_value x d = (case x of Some v \<Rightarrow> if truthy x then v else d | None \<Rightarrow> d)"

text \<open>\<open>typeof x === 'string' ? x : d\<close> and \<open>typeof x === 'boolean' ? x : d\<close>\<close>

definition string_or :: "json option \<Rightarrow> jsstr \<Rightarrow> jsstr" where
  "string_or x d = (case x of Some (JString s) \<Rightarrow> s | _ \<Rightarrow> d)"

definition boolean_or :: "json option \<Rightarrow> bool \<Rightarrow> bool" where
  "boolean_or x d = (case x of Some (JBool b) \<Rightarrow> b | _ \<Rightarrow> d)"

subsection \<open>The schema of the options\<close>

text \<open>
  A schema with the keywords the loader's schema uses: \<open>type\<close>, \<open>properties\<close>,
  \<open>additionalProperties\<close> (true when the keyword is absent), \<open>required\<close>, \<open>oneOf\<close> and
  \<open>enum\<close>; an empty list stands for an absent keyword.
\<close>

datatype schema =
  Schema "jsstr option" "(jsstr \<times> schema) list" bool "jsstr list" "schema list" "json list"

text \<open>The keyword \<open>type\<close>.\<close>

definition has_type :: "jsstr \<Rightarrow> json \<Rightarrow> bool" where
  "has_type n v =
     (case v of
        JNull \<Rightarrow> n = asc ''null''
      | JBool b \<Rightarrow> n = asc ''boolean''
      | JNumber i \<Rightarrow> n = asc ''number'' \<or> n = asc ''integer''
      | JString s \<Rightarrow> n = asc ''string''
      | JArray xs \<Rightarrow> n = asc ''array''
      | JObject kvs \<Rightarrow> n = asc ''object'')"

text \<open>
  Validation of a value against a schema. \<open>properties\<close>, \<open>additionalProperties\<close> and
  \<open>required\<close> constrain objects only; \<open>oneOf\<close> asks for exactly one of the alternatives.
\<close>

fun validate :: "schema \<Rightarrow> json \<Rightarrow> bool" where
  "validate (Schema t props additional req alternatives values) v =
     ((case t of None \<Rightarrow> True | Some n \<Rightarrow> has_type n v) \<and>
      (case v of
         JObject kvs \<Rightarrow>
           list_all (\<lambda>(k, x). case map_of props k of
                                 Some sub \<Rightarrow> validate sub x
                               | None \<Rightarrow> additional) kvs \<and>
           list_all (\<lambda>k. map_of kvs k \<noteq> None) req
       | _ \<Rightarrow> True) \<and>
      (alternatives = [] \<or> length (filter (\<lambda>sub. validate sub v) alternatives) = 1) \<and>
      (values = [] \<or> v \<in> set values))"

definition of_type :: "string \<Rightarrow> schema" where
  "of_type n = Schema (Some (asc n)) [] True [] [] []"

definition schema :: schema where
  "schema =
     Schema (Some (asc ''object''))
       [(asc ''production'', of_type ''boolean''),
        (asc ''attributeName'', of_type ''string''),
        (asc ''useRelativePaths'', of_type ''boolean''),
        (asc ''rootDir'', of_type ''string''),
        (asc ''injectReactSource'', of_type ''boolean''),
        (asc ''runtime'',
           Schema (Some (asc ''object''))
             [(asc ''autoInject'', of_type ''boolean''),
              (asc ''editor'',
                 Schema None [] True []
                   [of_type ''string'',
                    Schema (Some (asc ''object''))
                      [(asc ''handler'', of_type ''string''),
                       (asc ''useAbsolutePath'', of_type ''boolean'')]
                      True [asc ''handler''] [] []]
                   []),
              (asc ''enabledByDefault'', of_type ''boolean''),
              (asc ''showInstructions'', of_type ''boolean''),
              (asc ''tooltipPathDisplay'',
                 Schema (Some (asc ''string'')) [] True [] []
                   [JString (asc ''absolute''), JString (asc ''relative'')]),
              (asc ''styles'',
                 Schema (Some (asc ''object''))
                   [(asc ''outline'', of_type ''string''),
                    (asc ''outlineOffset'', of_type ''string''),
                    (asc ''tooltipBackground'', of_type ''string''),
                    (asc ''tooltipColor'', of_type ''string'')]
                   True [] [] [])]
             True [] [] [])]
       False [] [] []"

subsection \<open>The syntax tree, as the visitor sees it\<close>

datatype JSXName = JSXIdentifier jsstr | JSXNamespacedName jsstr jsstr

datatype expression =
    StringLiteral jsstr
  | NumericLiteral nat
  | ObjectExpression "(jsstr \<times> expression) list"
  | JSXExpressionContainer expression
  | OtherExpression jsstr

datatype attribute =
    JSXAttribute JSXName "expression option"
  | JSXSpreadAttribute expression

text \<open>
  An opening element node: the start of its source position (line and column), if it
  has one, and its attributes.
\<close>

record JSXOpeningElement =
  loc :: "(nat \<times> nat) option"
  attributes :: "attribute list"

text \<open>
  A parsed file: its opening element nodes, in the order the traversal visits them, and
  the rest of the program, which the loader does not look at.
\<close>

record 'p ast =
  elements :: "JSXOpeningElement list"
  program :: 'p

text \<open>
  What the loader takes from its environment: \<open>NODE_ENV\<close>, the working directory,
  \<open>path.relative\<close>, and the parser and the generator, which are not part of this
  program. Both may throw (\<open>None\<close>).
\<close>

record 'p build_env =
  NODE_ENV :: "jsstr option"
  cwd :: jsstr
  pathRelative :: "jsstr \<Rightarrow> jsstr \<Rightarrow> jsstr"
  parse :: "jsstr \<Rightarrow> 'p ast option"
  generate :: "'p ast \<Rightarrow> jsstr option"

subsection \<open>The visitor\<close>

definition is_named :: "jsstr \<Rightarrow> attribute \<Rightarrow> bool" where
  "is_named n attr =
     (case attr of
        JSXAttribute (JSXIdentifier m) v \<Rightarrow> m = n
      | _ \<Rightarrow> False)"

definition hasAttribute :: "attribute list \<Rightarrow> jsstr \<Rightarrow> bool" where
  "hasAttribute attrs n = list_ex (is_named n) attrs"

definition reactSourceAttr :: "jsstr \<Rightarrow> nat \<Rightarrow> nat \<Rightarrow> attribute" where
  "reactSourceAttr filePath l c =
     JSXAttribute (JSXIdentifier (asc ''__source''))
       (Some (JSXExpressionContainer
          (ObjectExpression
             [(asc ''fileName'', StringLiteral filePath),
              (asc ''lineNumber'', NumericLiteral l),
              (asc ''columnNumber'', NumericLiteral c)])))"

text \<open>
  The \<open>JSXOpeningElement\<close> visitor. Its first arguments are the variables of the loader
  it closes over: \<open>attributeName\<close>, \<open>useRelativePaths\<close>, \<open>rootDir\<close>, \<open>injectReactSource\<close>
  and \<open>filename\<close>. The second test of the source is evaluated only when
  \<open>injectReactSource\<close> is set; it has no effect, so the model evaluates it always.
\<close>

definition visit_JSXOpeningElement ::
  "'p build_env \<Rightarrow> jsstr \<Rightarrow> bool \<Rightarrow> jsstr \<Rightarrow> bool \<Rightarrow> jsstr \<Rightarrow> JSXOpeningElement
   \<Rightarrow> JSXOpeningElement" where
  "visit_JSXOpeningElement env attributeName relativePaths root reactSource filename node =
     (case loc node of
        None \<Rightarrow> node
      | Some (l, c) \<Rightarrow>
          (let filePath = (if relativePaths then pathRelative env root filename else filename);
               location = sourceLocation filePath l c;
               has = hasAttribute (attributes node) attributeName;
               attrs = (if \<not> has \<and> location \<noteq> []
                        then attributes node @
                             [JSXAttribute (JSXIdentifier attributeName)
                                (Some (StringLiteral location))]
                        else attributes node);
               hasReactSource = hasAttribute attrs (asc ''__source'');
               attrs = (if reactSource \<and> \<not> hasReactSource
                        then attrs @ [reactSourceAttr filePath l c]
                        else attrs)
           in node\<lparr>attributes := attrs\<rparr>))"

subsection \<open>The bootstrap snippet\<close>

definition hex_lower :: "nat \<Rightarrow> jschar" where
  "hex_lower n = (if n < 10 then word_of_nat (48 + n) else word_of_nat (87 + n))"

definition unicode_escape :: "jschar \<Rightarrow> jsstr" where
  "unicode_escape c =
     [92, 117, hex_lower (unat c div 4096), hex_lower (unat c div 256 mod 16),
      hex_lower (unat c div 16 mod 16), hex_lower (unat c mod 16)]"

text \<open>The characters of a string between the quotes of its JSON form.\<close>

fun quote_chars :: "jsstr \<Rightarrow> jsstr" where
  "quote_chars [] = []"
| "quote_chars (c # s) =
     (if c = 8 then [92, 98] @ quote_chars s
      else if c = 9 then [92, 116] @ quote_chars s
      else if c = 10 then [92, 110] @ quote_chars s
      else if c = 12 then [92, 102] @ quote_chars s
      else if c = 13 then [92, 114] @ quote_chars s
      else if c = 34 then [92, 34] @ quote_chars s
      else if c = 92 then [92, 92] @ quote_chars s
      else if c < 32 then unicode_escape c @ quote_chars s
      else if is_lead_surrogate c then
        (case s of
           [] \<Rightarrow> unicode_escape c
         | d # s' \<Rightarrow>
             if is_trail_surrogate d then c # d # quote_chars s'
             else unicode_escape c @ quote_chars s)
      else if is_trail_surrogate c then unicode_escape c @ quote_chars s
      else c # quote_chars s)"

definition QuoteJSONString :: "jsstr \<Rightarrow> jsstr" where
  "QuoteJSONString s = [34] @ quote_chars s @ [34]"

fun join :: "jsstr \<Rightarrow> jsstr list \<Rightarrow> jsstr" where
  "join sep [] = []"
| "join sep [x] = x"
| "join sep (x # y # xs) = x @ sep @ join sep (y # xs)"

fun JSON_stringify :: "json \<Rightarrow> jsstr" where
  "JSON_stringify JNull = asc ''null''"
| "JSON_stringify (JBool b) = (if b then asc ''true'' else asc ''false'')"
| "JSON_stringify (JNumber n) = (if n < 0 then asc ''-'' @ toString (nat (- n)) else toString (nat n))"
| "JSON_stringify (JString s) = QuoteJSONString s"
| "JSON_stringify (JArray xs) = asc ''['' @ join (asc '','') (map JSON_stringify xs) @ asc '']''"
| "JSON_stringify (JObject kvs) =
     asc ''{'' @
     join (asc '','') (map (\<lambda>(k, v). QuoteJSONString k @ asc '':'' @ JSON_stringify v) kvs) @
     asc ''}''"

text \<open>The object the snippet serialises, from the \<open>runtime\<close> option.\<close>

definition runtime_json :: "json \<Rightarrow> json" where
  "runtime_json runtime =
     JObject
       [(asc ''editor'', or_value (get_prop runtime (asc ''editor'')) (JString (asc ''vscode''))),
        (asc ''enabledByDefault'',
           or_value (get_prop runtime (asc ''enabledByDefault'')) (JBool False)),
        (asc ''tooltipPathDisplay'',
           or_value (get_prop runtime (asc ''tooltipPathDisplay'')) (JString (asc ''absolute''))),
        (asc ''showInstructions'',
           JBool (get_prop runtime (asc ''showInstructions'') \<noteq> Some (JBool False))),
        (asc ''styles'', or_value (get_prop runtime (asc ''styles'')) (JObject []))]"

definition configScript :: "json \<Rightarrow> jsstr" where
  "configScript runtime =
     [10] @ asc ''if (typeof window !== '' @ [39] @ asc ''undefined'' @ [39] @
     asc '' && !window.__GAZE_LOADER_CONFIG__) {'' @ [10] @
     asc ''  window.__GAZE_LOADER_CONFIG__ = '' @ JSON_stringify (runtime_json runtime) @
     asc '';'' @ [10] @ asc ''}'' @ [10]"

text \<open>\<^verbatim>\<open>/^(\s*['"]use client['"];?\s*\n)/\<close>\<close>

definition is_space :: "jschar \<Rightarrow> bool" where
  "is_space c =
     (c \<in> set [9, 10, 11, 12, 13, 32, 160, 5760, 8232, 8233, 8239, 8287, 12288, 65279] \<or>
      (8192 \<le> c \<and> c \<le> 8202))"

definition is_quote :: "jschar \<Rightarrow> bool" where
  "is_quote c = (c = 39 \<or> c = 34)"

definition use_client_re :: "item list" where
  "use_client_re =
     [Bol, Open, star is_space, One is_quote] @ lit (asc ''use client'') @
     [One is_quote, opt (\<lambda>c. c = 59), star is_space, One (\<lambda>c. c = 10), Close]"

text \<open>The insertion of the snippet: after a leading directive, or at the beginning.\<close>

definition inject_config :: "jsstr \<Rightarrow> jsstr \<Rightarrow> jsstr" where
  "inject_config script code =
     (case regex_match use_client_re code of
        Some (m, caps) \<Rightarrow> m @ script @ drop (length m) code
      | None \<Rightarrow> script @ code)"

subsection \<open>The loader\<close>

text \<open>The traversal: the visitor is applied to every opening element of the tree.\<close>

definition traverse :: "'p build_env \<Rightarrow> json \<Rightarrow> jsstr \<Rightarrow> 'p ast \<Rightarrow> 'p ast" where
  "traverse env options filename tree =
     (let attributeName = string_or (get_prop options (asc ''attributeName'')) (asc ''data-insp-path'');
          relativePaths = boolean_or (get_prop options (asc ''useRelativePaths'')) False;
          root = string_or (get_prop options (asc ''rootDir'')) (cwd env);
          reactSource = boolean_or (get_prop options (asc ''injectReactSource'')) False
      in tree\<lparr>elements :=
                map (visit_JSXOpeningElement env attributeName relativePaths root reactSource
                       filename)
                  (elements tree)\<rparr>)"

text \<open>
  The loader. Options given as a query string count as no options. The options are
  validated first, and the loader throws when they do not fit the schema; the test for a
  production build comes after that.
\<close>

definition loader_options :: "json \<Rightarrow> json" where
  "loader_options rawOptions = (case rawOptions of JString q \<Rightarrow> JObject [] | _ \<Rightarrow> rawOptions)"

definition turbopackSourceLoader ::
  "'p build_env \<Rightarrow> json \<Rightarrow> jsstr \<Rightarrow> jsstr \<Rightarrow> js_error + jsstr" where
  "turbopackSourceLoader env rawOptions resourcePath source =
     (let options = loader_options rawOptions
      in if \<not> validate schema options then Inl ValidationError
         else
           (let isProduction = (NODE_ENV env = Some (asc ''production''))
            in if isProduction \<and> \<not> truthy (get_prop options (asc ''production'')) then Inr source
               else
                 (let filename = resourcePath
                  in case parse env source of
                       None \<Rightarrow> Inr source
                     | Some tree \<Rightarrow>
                         (case generate env (traverse env options filename tree) of
                            None \<Rightarrow> Inr source
                          | Some code \<Rightarrow>
                              (case get_prop options (asc ''runtime'') of
                                 None \<Rightarrow> Inr code
                               | Some runtime \<Rightarrow>
                                   if \<not> isProduction \<and> truthy (Some runtime)
                                   then Inr (inject_config (configScript runtime) code)
                                   else Inr code)))))"

subsection \<open>An example build\<close>

text \<open>
  The parser and the generator are libraries, outside this program. For the examples,
  \<open>page_env\<close> is a development build in \<open>/app\<close> whose parser and generator know two texts:
  the file \<open>page_source\<close>, one self-closing element followed by a semicolon, and the text
  the loader returns for it. The program part of a tree is the text it was parsed from.
  The generator prints an added attribute inside the tag, and prints every statement on
  the line it came from, so that the statement of the snippet comes out as
  \<open>snippet_code\<close>. On any other text the parser throws.
\<close>

definition location_attribute :: "jsstr \<Rightarrow> attribute" where
  "location_attribute v = JSXAttribute (JSXIdentifier (asc ''data-insp-path'')) (Some (StringLiteral v))"

definition page_source :: jsstr where
  "page_source = asc ''<p />;''"

definition page_code :: jsstr where
  "page_code =
     asc ''<p data-insp-path='' @ [34] @ asc ''/app/page.tsx:1:0'' @ [34] @ asc '' />;''"

definition snippet_code :: jsstr where
  "snippet_code =
     [10] @ asc ''if (typeof window !== '' @ [39] @ asc ''undefined'' @ [39] @
     asc '' && !window.__GAZE_LOADER_CONFIG__) {'' @ [10] @
     asc ''  window.__GAZE_LOADER_CONFIG__ = { '' @
     [34] @ asc ''editor'' @ [34] @ asc '': '' @ [34] @ asc ''vscode'' @ [34] @ asc '', '' @
     [34] @ asc ''enabledByDefault'' @ [34] @ asc '': false, '' @
     [34] @ asc ''tooltipPathDisplay'' @ [34] @ asc '': '' @ [34] @ asc ''absolute'' @ [34] @
     asc '', '' @
     [34] @ asc ''showInstructions'' @ [34] @ asc '': true, '' @
     [34] @ asc ''styles'' @ [34] @ asc '': {} };'' @ [10] @ asc ''}'' @ [10]"

definition page_env :: "jsstr build_env" where
  "page_env =
     \<lparr>NODE_ENV = Some (asc ''development''), cwd = asc ''/app'',
      pathRelative = (\<lambda>from to. to),
      parse = (\<lambda>s. if s = page_source
                     then Some \<lparr>elements = [\<lparr>loc = Some (1, 0), attributes = []\<rparr>],
                                program = s\<rparr>
                     else if s = configScript (JObject []) @ page_code
                     then Some \<lparr>elements =
                                  [\<lparr>loc = Some (5, 0),
                                    attributes = [location_attribute (asc ''/app/page.tsx:1:0'')]\<rparr>],
                                program = s\<rparr>
                     else None),
      generate = (\<lambda>t. if map attributes (elements t)
                            = [[location_attribute (asc ''/app/page.tsx:1:0'')]]
                       then (if program t = page_source then Some page_code
                             else if program t = configScript (JObject []) @ page_code
                             then Some (snippet_code @ page_code)
                             else None)
                       else None)\<rparr>"





section \<open>The navigator (runtime.ts, \<open>enableSourceHighlighting\<close>)\<close>

subsection \<open>Configuration\<close>

text \<open>
  A key of a configuration object: absent, present with the value undefined, or present
  with a value.
\<close>

datatype 'a property = Absent | Undefined | Value 'a

record style_options =
  outline :: "jsstr option"
  outlineOffset :: "jsstr option"
  tooltipBackground :: "jsstr option"
  tooltipColor :: "jsstr option"

record HighlightConfig =
  editor :: "editor property"
  attributeName :: "jsstr property"
  enabledByDefault :: "bool property"
  tooltipPathDisplay :: "jsstr property"
  styles :: "style_options property"
  showInstructions :: "bool property"

definition empty_config :: HighlightConfig where
  "empty_config =
     \<lparr>editor = Absent, attributeName = Absent, enabledByDefault = Absent,
      tooltipPathDisplay = Absent, styles = Absent, showInstructions = Absent\<rparr>"

text \<open>\<open>{ ...a, ...b }\<close>, key by key: a key that \<open>b\<close> has takes the value it has in \<open>b\<close>.\<close>

definition spread_prop :: "'a property \<Rightarrow> 'a property \<Rightarrow> 'a property" where
  "spread_prop a b = (case b of Absent \<Rightarrow> a | Undefined \<Rightarrow> Undefined | Value v \<Rightarrow> Value v)"

definition spread :: "HighlightConfig \<Rightarrow> HighlightConfig \<Rightarrow> HighlightConfig" where
  "spread a b =
     \<lparr>editor = spread_prop (editor a) (editor b),
      attributeName = spread_prop (attributeName a) (attributeName b),
      enabledByDefault = spread_prop (enabledByDefault a) (enabledByDefault b),
      tooltipPathDisplay = spread_prop (tooltipPathDisplay a) (tooltipPathDisplay b),
      styles = spread_prop (styles a) (styles b),
      showInstructions = spread_prop (showInstructions a) (showInstructions b)\<rparr>"

text \<open>The default of a destructuring pattern: taken when the key is absent or undefined.\<close>

definition or_default :: "'a property \<Rightarrow> 'a \<Rightarrow> 'a" where
  "or_default p d = (case p of Value v \<Rightarrow> v | _ \<Rightarrow> d)"

text \<open>\<open>styles.outline || '2px solid #0066cc'\<close>: the default replaces undefined and the empty string.\<close>

definition or_else :: "jsstr option \<Rightarrow> jsstr \<Rightarrow> jsstr" where
  "or_else v d = (case v of None \<Rightarrow> d | Some s \<Rightarrow> (if s = [] then d else s))"

definition no_styles :: style_options where
  "no_styles = \<lparr>outline = None, outlineOffset = None, tooltipBackground = None, tooltipColor = None\<rparr>"

record resolved_styles =
  rs_outline :: jsstr
  rs_outlineOffset :: jsstr
  rs_tooltipBackground :: jsstr
  rs_tooltipColor :: jsstr

definition defaultStyles :: "style_options \<Rightarrow> resolved_styles" where
  "defaultStyles st =
     \<lparr>rs_outline = or_else (outline st) (asc ''2px solid #0066cc''),
      rs_outlineOffset = or_else (outlineOffset st) (asc ''2px''),
      rs_tooltipBackground = or_else (tooltipBackground st) (asc ''rgba(0, 0, 0, 0.9)''),
      rs_tooltipColor = or_else (tooltipColor st) (asc ''white'')\<rparr>"

subsection \<open>The page and the sessions\<close>

text \<open>
  The variables of one call of \<open>enableSourceHighlighting\<close>, which its handlers close
  over: the settings taken from the merged configuration, and \<open>isEnabled\<close>,
  \<open>styleElement\<close> and \<open>observer\<close>. (\<open>clickHandler\<close> is assigned once and never null.)
\<close>

record session =
  cfg_editor :: editor
  cfg_attributeName :: jsstr
  cfg_tooltipPathDisplay :: jsstr
  cfg_styles :: resolved_styles
  isEnabled :: bool
  styleElement :: "nat option"
  observer :: "nat option"

datatype event_type = keydown | click

text \<open>The two handlers of the session with the given number.\<close>

datatype listener = keyboardHandler nat | clickHandler nat

text \<open>
  The document, as far as this program reads and writes it. It has a head and a body,
  as the type of \<open>document\<close> says. \<open>listeners\<close> are the event listeners of the document
  (type, callback, capture flag); \<open>observers\<close> are the mutation observers that are
  observing the body, each with the session whose \<open>processElements\<close> is its callback;
  \<open>head\<close> holds the style elements appended to the head; \<open>page_elements\<close> are the attributes
  of the elements of the page; \<open>opened\<close> are the URLs given to \<open>window.open\<close>;
  \<open>selector_valid\<close> tells for which attribute names the selector of \<open>processElements\<close>
  is one that \<open>querySelectorAll\<close> accepts. \<open>fresh\<close> numbers the objects that are created.
  Output to the console is not modelled.
\<close>

record page =
  listeners :: "(event_type \<times> listener \<times> bool) list"
  observers :: "(nat \<times> nat) list"
  head :: "nat list"
  classList :: "jsstr list"
  page_elements :: "(jsstr \<rightharpoonup> jsstr) list"
  sessions :: "nat \<rightharpoonup> session"
  fresh :: nat
  opened :: "jsstr list"
  GAZE_LOADER_CONFIG :: "HighlightConfig option"
  selector_valid :: "jsstr \<Rightarrow> bool"

definition addEventListener :: "event_type \<Rightarrow> listener \<Rightarrow> bool \<Rightarrow> page \<Rightarrow> page" where
  "addEventListener t l capture w =
     (if (t, l, capture) \<in> set (listeners w) then w
      else w\<lparr>listeners := listeners w @ [(t, l, capture)]\<rparr>)"

definition removeEventListener :: "event_type \<Rightarrow> listener \<Rightarrow> bool \<Rightarrow> page \<Rightarrow> page" where
  "removeEventListener t l capture w = w\<lparr>listeners := removeAll (t, l, capture) (listeners w)\<rparr>"

definition marker_class :: jsstr where
  "marker_class = asc ''turbopack-source-highlight-enabled''"

definition classList_add :: "jsstr \<Rightarrow> page \<Rightarrow> page" where
  "classList_add c w = (if c \<in> set (classList w) then w else w\<lparr>classList := classList w @ [c]\<rparr>)"

definition classList_remove :: "jsstr \<Rightarrow> page \<Rightarrow> page" where
  "classList_remove c w = w\<lparr>classList := removeAll c (classList w)\<rparr>"

text \<open>\<open>getGazeConfig\<close>, where there is a window.\<close>

definition getGazeConfig :: "page \<Rightarrow> HighlightConfig" where
  "getGazeConfig w = (case GAZE_LOADER_CONFIG w of Some c \<Rightarrow> c | None \<Rightarrow> empty_config)"

subsection \<open>Reading locations from elements\<close>

definition getElementSourceLocation :: "(jsstr \<rightharpoonup> jsstr) \<Rightarrow> jsstr \<Rightarrow> SourceLocation option" where
  "getElementSourceLocation element name =
     (case element name of
        None \<Rightarrow> None
      | Some sourceAttr \<Rightarrow> (if sourceAttr = [] then None else parseSourceLocation sourceAttr))"

text \<open>
  The loop over \<open>current\<close>, \<open>current.parentElement\<close>, and so on: the argument is that
  chain of elements, from the element itself to the root.
\<close>

fun findNearestSourceLocation :: "(jsstr \<rightharpoonup> jsstr) list \<Rightarrow> jsstr \<Rightarrow> SourceLocation option" where
  "findNearestSourceLocation [] name = None"
| "findNearestSourceLocation (current # parents) name =
     (case getElementSourceLocation current name of
        Some location \<Rightarrow> Some location
      | None \<Rightarrow> findNearestSourceLocation parents name)"

subsection \<open>The functions of a session\<close>

definition tooltip_attribute :: jsstr where
  "tooltip_attribute = asc ''data-tooltip-path''"

definition processElement :: "session \<Rightarrow> (jsstr \<rightharpoonup> jsstr) \<Rightarrow> (jsstr \<rightharpoonup> jsstr)" where
  "processElement s element =
     (case element (cfg_attributeName s) of
        None \<Rightarrow> element
      | Some fullPath \<Rightarrow>
          if element tooltip_attribute = None \<and> fullPath \<noteq> []
          then element(tooltip_attribute \<mapsto> getDisplayPath (cfg_tooltipPathDisplay s) fullPath)
          else element)"

text \<open>
  \<open>processElements\<close> throws when the selector it builds from the attribute name is not
  valid. The number is that of the session.
\<close>

definition processElements :: "nat \<Rightarrow> page \<Rightarrow> js_error + page" where
  "processElements sid w =
     (case sessions w sid of
        None \<Rightarrow> Inr w
      | Some s \<Rightarrow>
          if \<not> selector_valid w (cfg_attributeName s) then Inl SyntaxError
          else Inr (w\<lparr>page_elements := map (processElement s) (page_elements w)\<rparr>))"

definition createStyles :: "nat \<Rightarrow> page \<Rightarrow> page" where
  "createStyles sid w =
     (case sessions w sid of
        None \<Rightarrow> w
      | Some s \<Rightarrow>
          (case styleElement s of
             Some e \<Rightarrow> w
           | None \<Rightarrow>
               w\<lparr>head := head w @ [fresh w],
                 sessions := (sessions w)(sid \<mapsto> s\<lparr>styleElement := Some (fresh w)\<rparr>),
                 fresh := Suc (fresh w)\<rparr>))"

definition set_isEnabled :: "nat \<Rightarrow> bool \<Rightarrow> page \<Rightarrow> page" where
  "set_isEnabled sid b w =
     (case sessions w sid of
        None \<Rightarrow> w
      | Some s \<Rightarrow> w\<lparr>sessions := (sessions w)(sid \<mapsto> s\<lparr>isEnabled := b\<rparr>)\<rparr>)"

text \<open>\<open>observer = new MutationObserver(...); observer.observe(document.body, ...)\<close>\<close>

definition new_observer :: "nat \<Rightarrow> page \<Rightarrow> page" where
  "new_observer sid w =
     (case sessions w sid of
        None \<Rightarrow> w
      | Some s \<Rightarrow>
          w\<lparr>observers := observers w @ [(fresh w, sid)],
            sessions := (sessions w)(sid \<mapsto> s\<lparr>observer := Some (fresh w)\<rparr>),
            fresh := Suc (fresh w)\<rparr>)"

definition disconnect :: "nat \<Rightarrow> page \<Rightarrow> page" where
  "disconnect oid w = w\<lparr>observers := filter (\<lambda>(i, sid). i \<noteq> oid) (observers w)\<rparr>"

text \<open>\<open>if (observer) { observer.disconnect(); observer = null; }\<close>\<close>

definition drop_observer :: "nat \<Rightarrow> page \<Rightarrow> page" where
  "drop_observer sid w =
     (case sessions w sid of
        None \<Rightarrow> w
      | Some s \<Rightarrow>
          (case observer s of
             None \<Rightarrow> w
           | Some oid \<Rightarrow>
               (disconnect oid w)\<lparr>sessions := (sessions w)(sid \<mapsto> s\<lparr>observer := None\<rparr>)\<rparr>))"

text \<open>
  \<open>toggleHighlighting\<close>. The result is the page after the call and the error, if the call
  threw one: what it did before throwing stays done.
\<close>

definition toggleHighlighting :: "nat \<Rightarrow> page \<Rightarrow> page \<times> js_error option" where
  "toggleHighlighting sid w =
     (case sessions w sid of
        None \<Rightarrow> (w, None)
      | Some s \<Rightarrow>
          (let w = set_isEnabled sid (\<not> isEnabled s) w
           in if \<not> isEnabled s then
                (let w = createStyles sid w
                 in case processElements sid w of
                      Inl e \<Rightarrow> (w, Some e)
                    | Inr w \<Rightarrow>
                        (let w = classList_add marker_class w;
                             w = addEventListener click (clickHandler sid) True w;
                             w = new_observer sid w
                         in (w, None)))
              else
                (let w = classList_remove marker_class w;
                     w = removeEventListener click (clickHandler sid) True w;
                     w = drop_observer sid w
                 in (w, None))))"

definition call_keyboardHandler :: "nat \<Rightarrow> bool \<Rightarrow> jsstr \<Rightarrow> page \<Rightarrow> page \<times> js_error option" where
  "call_keyboardHandler sid shiftKey key w =
     (if shiftKey \<and> key = asc ''Z'' then toggleHighlighting sid w else (w, None))"

definition call_clickHandler ::
  "nat \<Rightarrow> (jsstr \<rightharpoonup> jsstr) list \<Rightarrow> page \<Rightarrow> page \<times> js_error option" where
  "call_clickHandler sid target w =
     (case sessions w sid of
        None \<Rightarrow> (w, None)
      | Some s \<Rightarrow>
          if \<not> isEnabled s then (w, None)
          else
            (case findNearestSourceLocation target (cfg_attributeName s) of
               None \<Rightarrow> (w, None)
             | Some location \<Rightarrow>
                 (case openInEditor True location (cfg_editor s) of
                    Inl e \<Rightarrow> (w, Some e)
                  | Inr None \<Rightarrow> (w, None)
                  | Inr (Some url) \<Rightarrow> (w\<lparr>opened := opened w @ [url]\<rparr>, None))))"

subsection \<open>\<open>enableSourceHighlighting\<close> and its cleanup function\<close>

text \<open>The function returned: the one that does nothing, or the cleanup of a session.\<close>

datatype cleanup = noop_cleanup | session_cleanup nat

text \<open>The body of \<open>enableSourceHighlighting\<close>, where there is a document.\<close>

definition enableSourceHighlighting_in ::
  "HighlightConfig \<Rightarrow> page \<Rightarrow> (js_error + cleanup) \<times> page" where
  "enableSourceHighlighting_in config w =
     (let loaderConfig = getGazeConfig w;
          mergedConfig = spread loaderConfig config;
          byDefault = or_default (enabledByDefault mergedConfig) False;
          sid = fresh w;
          s = \<lparr>cfg_editor = or_default (editor mergedConfig) (Preset (asc ''vscode'')),
               cfg_attributeName = or_default (attributeName mergedConfig) (asc ''data-insp-path''),
               cfg_tooltipPathDisplay =
                 or_default (tooltipPathDisplay mergedConfig) (asc ''absolute''),
               cfg_styles = defaultStyles (or_default (styles mergedConfig) no_styles),
               isEnabled = byDefault, styleElement = None, observer = None\<rparr>;
          w = w\<lparr>sessions := (sessions w)(sid \<mapsto> s), fresh := Suc sid\<rparr>;
          w = addEventListener keydown (keyboardHandler sid) False w
      in if byDefault then
           (case toggleHighlighting sid w of
              (w, Some e) \<Rightarrow> (Inl e, w)
            | (w, None) \<Rightarrow> (Inr (session_cleanup sid), w))
         else (Inr (session_cleanup sid), w))"

text \<open>\<open>enableSourceHighlighting\<close>; the page is \<open>None\<close> where \<open>document\<close> is undefined.\<close>

definition enableSourceHighlighting ::
  "HighlightConfig \<Rightarrow> page option \<Rightarrow> (js_error + cleanup) \<times> page option" where
  "enableSourceHighlighting config doc =
     (case doc of
        None \<Rightarrow> (Inr noop_cleanup, None)
      | Some w \<Rightarrow> (case enableSourceHighlighting_in config w of (r, w) \<Rightarrow> (r, Some w)))"

definition remove_element :: "nat \<Rightarrow> page \<Rightarrow> page" where
  "remove_element e w = w\<lparr>head := removeAll e (head w)\<rparr>"

definition run_cleanup :: "cleanup \<Rightarrow> page \<Rightarrow> page" where
  "run_cleanup c w =
     (case c of
        noop_cleanup \<Rightarrow> w
      | session_cleanup sid \<Rightarrow>
          (case sessions w sid of
             None \<Rightarrow> w
           | Some s \<Rightarrow>
               (let w = removeEventListener keydown (keyboardHandler sid) False w;
                    w = removeEventListener click (clickHandler sid) True w;
                    w = (case styleElement s of Some e \<Rightarrow> remove_element e w | None \<Rightarrow> w);
                    w = (case observer s of Some oid \<Rightarrow> disconnect oid w | None \<Rightarrow> w)
                in classList_remove marker_class w)))"

subsection \<open>What happens on the page\<close>

text \<open>
  A key is pressed, an element is clicked (given by the chain from the element to the
  root), the observers are told of a change, or the application changes the elements.
  A listener that throws is left, and the next one is called.
\<close>

datatype event =
    KeydownEvent bool jsstr
  | ClickEvent "(jsstr \<rightharpoonup> jsstr) list"
  | MutationEvent
  | DomUpdate "(jsstr \<rightharpoonup> jsstr) list"

definition call_listener :: "event \<Rightarrow> (event_type \<times> listener \<times> bool) \<Rightarrow> page \<Rightarrow> page" where
  "call_listener ev entry w =
     (case (ev, entry) of
        (KeydownEvent shiftKey key, (keydown, keyboardHandler sid, capture)) \<Rightarrow>
          fst (call_keyboardHandler sid shiftKey key w)
      | (ClickEvent target, (click, clickHandler sid, capture)) \<Rightarrow>
          fst (call_clickHandler sid target w)
      | _ \<Rightarrow> w)"

definition call_observer :: "(nat \<times> nat) \<Rightarrow> page \<Rightarrow> page" where
  "call_observer entry w =
     (case processElements (snd entry) w of Inl e \<Rightarrow> w | Inr w' \<Rightarrow> w')"

definition dispatch :: "event \<Rightarrow> page \<Rightarrow> page" where
  "dispatch ev w =
     (case ev of
        MutationEvent \<Rightarrow> foldl (\<lambda>w entry. call_observer entry w) w (observers w)
      | DomUpdate els \<Rightarrow> w\<lparr>page_elements := els\<rparr>
      | _ \<Rightarrow> foldl (\<lambda>w entry. call_listener ev entry w) w (listeners w))"

definition initial_page ::
  "jsstr list \<Rightarrow> (jsstr \<rightharpoonup> jsstr) list \<Rightarrow> HighlightConfig option \<Rightarrow> (jsstr \<Rightarrow> bool) \<Rightarrow> page" where
  "initial_page classes els loaderConfig valid =
     \<lparr>listeners = [], observers = [], head = [], classList = classes, page_elements = els,
      sessions = Map.empty, fresh = 0, opened = [], GAZE_LOADER_CONFIG = loaderConfig,
      selector_valid = valid\<rparr>"

text \<open>The pages that calls of \<open>enableSourceHighlighting\<close>, events and cleanups lead to.\<close>

inductive reachable :: "page \<Rightarrow> bool" where
  initial: "reachable (initial_page classes els loaderConfig valid)"
| enable: "reachable w \<Longrightarrow> reachable (snd (enableSourceHighlighting_in config w))"
| event: "reachable w \<Longrightarrow> reachable (dispatch ev w)"
| cleanup: "reachable w \<Longrightarrow> reachable (run_cleanup c w)"

definition owner :: "listener \<Rightarrow> nat" where
  "owner l = (case l of keyboardHandler sid \<Rightarrow> sid | clickHandler sid \<Rightarrow> sid)"



subsection \<open>What holds of every page that can be reached\<close>

text \<open>
  Every listener is the keydown listener or the capturing click listener of a session
  of the page, and is registered once.
\<close>

definition inv_listeners :: "page \<Rightarrow> bool" where
  "inv_listeners w =
     (distinct (listeners w) \<and>
      (\<forall>entry \<in> set (listeners w).
         \<exists>sid s. sessions w sid = Some s \<and>
           (entry = (keydown, keyboardHandler sid, False) \<or>
            entry = (click, clickHandler sid, True))))"

text \<open>
  Every observer that is observing is the one that the variable \<open>observer\<close> of its
  session holds, and that session is enabled; no observer is listed twice.
\<close>

definition inv_observers :: "page \<Rightarrow> bool" where
  "inv_observers w =
     (distinct (map fst (observers w)) \<and>
      (\<forall>entry \<in> set (observers w).
         \<exists>s. sessions w (snd entry) = Some s \<and> observer s = Some (fst entry) \<and> isEnabled s))"

text \<open>Every style element in the head is the one that \<open>styleElement\<close> of a session holds.\<close>

definition inv_head :: "page \<Rightarrow> bool" where
  "inv_head w =
     (\<forall>e \<in> set (head w). \<exists>sid s. sessions w sid = Some s \<and> styleElement s = Some e)"

text \<open>The numbers in use are below \<open>fresh\<close>.\<close>

definition inv_fresh :: "page \<Rightarrow> bool" where
  "inv_fresh w =
     (\<forall>sid s. sessions w sid = Some s \<longrightarrow>
        sid < fresh w \<and>
        (\<forall>e. styleElement s = Some e \<longrightarrow> e < fresh w) \<and>
        (\<forall>oid. observer s = Some oid \<longrightarrow> oid < fresh w))"

definition page_inv :: "page \<Rightarrow> bool" where
  "page_inv w = (inv_listeners w \<and> inv_observers w \<and> inv_head w \<and> inv_fresh w)"

text \<open>What a session has attached to the page.\<close>

definition listeners_of :: "nat \<Rightarrow> page \<Rightarrow> (event_type \<times> listener \<times> bool) list" where
  "listeners_of sid w = filter (\<lambda>(t, l, c). owner l = sid) (listeners w)"

definition observers_of :: "nat \<Rightarrow> page \<Rightarrow> (nat \<times> nat) list" where
  "observers_of sid w = filter (\<lambda>(oid, sid'). sid' = sid) (observers w)"

definition styles_of :: "nat \<Rightarrow> page \<Rightarrow> nat list" where
  "styles_of sid w =
     (case sessions w sid of
        None \<Rightarrow> []
      | Some s \<Rightarrow> filter (\<lambda>e. styleElement s = Some e) (head w))"


text \<open>The settings that a session was created with.\<close>

definition same_settings :: "session \<Rightarrow> session \<Rightarrow> bool" where
  "same_settings s s' =
     (cfg_editor s' = cfg_editor s \<and> cfg_attributeName s' = cfg_attributeName s \<and>
      cfg_tooltipPathDisplay s' = cfg_tooltipPathDisplay s \<and> cfg_styles s' = cfg_styles s)"

text \<open>A page with one session, after one press of the toggle chord: highlighting is on.\<close>

definition toggled_page :: page where
  "toggled_page =
     dispatch (KeydownEvent True (asc ''Z''))
       (snd (enableSourceHighlighting_in empty_config (initial_page [] [] None (\<lambda>n. True))))"

section \<open>Properties of the location codec\<close>

lemma asc_colon: "asc '':'' = [58]"
  by (simp add: asc_def)

lemma first_some_all_None: "(\<And>x. x \<in> set xs \<Longrightarrow> f x = None) \<Longrightarrow> first_some f xs = None"
  by (induction xs) auto

lemma first_some_append_None:
  "(\<And>x. x \<in> set xs \<Longrightarrow> f x = None) \<Longrightarrow> first_some f (xs @ ys) = first_some f ys"
  by (induction xs) auto

lemma unat_digit_char: "d < 10 \<Longrightarrow> unat (digit_char d) = 48 + d"
  using unat_of_nat [where 'a = 16, of "48 + d"] by (simp add: digit_char_def del: of_nat_add)

lemma is_digit_unat: "is_digit c = (48 \<le> unat c \<and> unat c \<le> 57)"
  by (simp add: is_digit_def word_le_nat_alt)

lemma is_digit_digit_char: "d < 10 \<Longrightarrow> is_digit (digit_char d)"
  by (simp add: is_digit_unat unat_digit_char)

lemma digit_val_digit_char: "d < 10 \<Longrightarrow> digit_val (digit_char d) = d"
  by (simp add: digit_val_def unat_digit_char)

lemma toString_digits: "\<forall>c \<in> set (toString n). is_digit c"
proof (induction n rule: toString.induct)
  case (1 n)
  show ?case
  proof (cases "n < 10")
    case True
    then show ?thesis by (simp add: toString.simps [of n] is_digit_digit_char)
  next
    case False
    with 1 show ?thesis by (simp add: toString.simps [of n] is_digit_digit_char)
  qed
qed

lemma toString_nonempty: "toString n \<noteq> []"
  by (simp add: toString.simps [of n])

lemma takeWhile_all: "\<forall>c \<in> set xs. P c \<Longrightarrow> takeWhile P xs = xs"
  by (induction xs) auto

lemma parseInt_toString:
  assumes "n < 2 ^ 53"
  shows "parseInt (toString n) = n"
proof -
  have "foldl (\<lambda>a c. 10 * a + digit_val c) 0 (toString n) = n"
  proof (induction n rule: toString.induct)
    case (1 n)
    show ?case
    proof (cases "n < 10")
      case True
      then show ?thesis by (simp add: toString.simps [of n] digit_val_digit_char)
    next
      case False
      with 1 show ?thesis by (simp add: toString.simps [of n] digit_val_digit_char)
    qed
  qed
  with assms show ?thesis
    by (simp add: parseInt_def takeWhile_all toString_digits to_number_def)
qed

lemma digit_not_colon: "is_digit c \<Longrightarrow> c \<noteq> 58"
  by (auto simp: is_digit_def)

lemma colon_not_lt: "not_line_terminator 58"
  by (simp add: not_line_terminator_def is_line_terminator_def)

lemma digit_not_lt: "is_digit c \<Longrightarrow> not_line_terminator c"
  by (auto simp: is_digit_def not_line_terminator_def is_line_terminator_def)

lemma candidates_all:
  "\<forall>c \<in> set s. P c \<Longrightarrow> lo \<le> length s \<Longrightarrow>
   candidates P lo None s = length s # rev [lo..<length s]"
  by (simp add: candidates_def takeWhile_all Let_def)

lemma candidates_digits_then_colon:
  "\<forall>c \<in> set d. is_digit c \<Longrightarrow> d \<noteq> [] \<Longrightarrow>
   candidates is_digit 1 None (d @ 58 # r) = length d # rev [1..<length d]"
proof -
  assume a: "\<forall>c \<in> set d. is_digit c" and b: "d \<noteq> []"
  have "takeWhile is_digit (d @ 58 # r) = d"
    using a by (simp add: takeWhile_append2 is_digit_def)
  with b show ?thesis
    by (cases d) (simp_all add: candidates_def Let_def)
qed

lemma location_tail2_ok:
  assumes "\<forall>c \<in> set d. is_digit c" "d \<noteq> []"
  shows "bt location_tail2 (p @ d) (length p) opens caps = Some (length p + length d, caps @ [d])"
proof -
  have c: "candidates is_digit (Suc 0) None d = length d # rev [Suc 0..<length d]"
    using assms by (cases d) (simp_all add: candidates_all)
  show ?thesis
    by (simp add: location_tail2_def c)
qed

lemma location_tail1_ok:
  assumes "\<forall>c \<in> set d1. is_digit c" "d1 \<noteq> []" "\<forall>c \<in> set d2. is_digit c" "d2 \<noteq> []"
  shows "bt location_tail1 (f @ 58 # d1 @ 58 # d2) (length f) opens caps
         = Some (length f + length d1 + length d2 + 2, caps @ [d1, d2])"
proof -
  let ?s = "f @ 58 # d1 @ 58 # d2"
  have c: "candidates is_digit (Suc 0) None (d1 @ 58 # d2) = length d1 # rev [Suc 0..<length d1]"
    using assms candidates_digits_then_colon [of d1 d2] by simp
  have s: "?s = (f @ 58 # d1 @ [58]) @ d2" by simp
  have t: "bt location_tail2 ?s (Suc (Suc (length f + length d1))) opens (caps @ [d1])
           = Some (length (f @ 58 # d1 @ [58]) + length d2, (caps @ [d1]) @ [d2])"
    using location_tail2_ok [OF assms(3,4), of "f @ 58 # d1 @ [58]" opens "caps @ [d1]"] by simp
  have n: "?s ! Suc (length f + length d1) = 58"
    by (simp add: nth_append nth_Cons')
  show ?thesis
    using t n by (simp add: location_tail1_def c nth_append)
qed

lemma upt_split: "a \<le> b \<Longrightarrow> b \<le> c \<Longrightarrow> [a..<c] = [a..<b] @ [b..<c]"
  by (metis le_Suc_ex upt_add_eq_append)

lemma colon_fail: "\<not> (i < length s \<and> s ! i = 58) \<Longrightarrow> bt (One (\<lambda>c. c = 58) # r) s i opens caps = None"
  by auto

lemma location_tail1_fail:
  assumes d1: "\<forall>c \<in> set d1. is_digit c" and d2: "\<forall>c \<in> set d2. is_digit c" and k: "length f < k"
  shows "bt location_tail1 (f @ 58 # d1 @ 58 # d2) k opens caps = None"
proof -
  let ?s = "f @ 58 # d1 @ 58 # d2"
  obtain j where j: "k = length f + 1 + j"
    using k by (metis Suc_eq_plus1 add.commute add_Suc less_iff_Suc_add)
  have nth: "?s ! k = (d1 @ 58 # d2) ! j"
    by (simp add: j nth_append)
  show ?thesis
  proof (cases "j = length d1")
    case True
    have drop: "drop (Suc k) ?s = d2"
      by (simp add: j True)
    have c: "set (candidates is_digit 1 None d2) \<subseteq> {1..length d2}"
      using d2 by (auto simp: candidates_def takeWhile_all Let_def)
    have fs: "first_some (\<lambda>n. bt (Close # One (\<lambda>c. c = 58) # location_tail2) ?s (Suc k + n) (Suc k # opens) caps)
            (candidates is_digit 1 None d2) = None"
    proof (rule first_some_all_None)
      fix n assume "n \<in> set (candidates is_digit 1 None d2)"
      with c have n: "1 \<le> n" "n \<le> length d2" by auto
      have "\<not> (Suc k + n < length ?s \<and> ?s ! (Suc k + n) = 58)"
      proof (cases "n = length d2")
        case True
        then show ?thesis by (simp add: j \<open>j = length d1\<close>)
      next
        case False
        with n have lt: "n < length d2" by simp
        have "?s ! (Suc k + n) = d2 ! n"
          by (simp add: j \<open>j = length d1\<close> nth_append)
        moreover have "is_digit (d2 ! n)" using d2 lt by simp
        ultimately show ?thesis using digit_not_colon by metis
      qed
      then have "bt (One (\<lambda>c. c = 58) # location_tail2) ?s (Suc k + n) opens (caps @ [take n (drop (Suc k) ?s)]) = None"
        by (rule colon_fail)
      then show "bt (Close # One (\<lambda>c. c = 58) # location_tail2) ?s (Suc k + n) (Suc k # opens) caps = None"
        by (simp del: bt.simps(2))
    qed
    have step: "bt location_tail1 ?s k opens caps =
        (if k < length ?s \<and> ?s ! k = 58
         then first_some (\<lambda>n. bt (Close # One (\<lambda>c. c = 58) # location_tail2) ?s (Suc k + n) (Suc k # opens) caps)
                (candidates is_digit 1 None (drop (Suc k) ?s))
         else None)"
      by (simp only: location_tail1_def bt.simps)
    show ?thesis
      by (simp only: step drop fs if_cancel)
  next
    case False
    have "\<not> (k < length ?s \<and> ?s ! k = 58)"
    proof (cases "j < length d1")
      case True
      then have "?s ! k = d1 ! j" by (simp only: nth) (simp add: nth_append)
      moreover have "is_digit (d1 ! j)" using d1 True by simp
      ultimately show ?thesis using digit_not_colon by metis
    next
      case F: False
      with False have g: "length d1 < j" by simp
      show ?thesis
      proof (cases "k < length ?s")
        case True
        then have lt: "j - length d1 - 1 < length d2" using g by (simp add: j)
        have "?s ! k = d2 ! (j - length d1 - 1)"
          using g by (simp only: nth) (simp add: nth_append nth_Cons')
        moreover have "is_digit (d2 ! (j - length d1 - 1))" using d2 lt by simp
        ultimately show ?thesis using digit_not_colon by metis
      next
        case False
        then show ?thesis by simp
      qed
    qed
    then show ?thesis
      unfolding location_tail1_def by (rule colon_fail)
  qed
qed

lemma location_re_match:
  assumes f: "f \<noteq> []" "\<forall>c \<in> set f. not_line_terminator c"
      and d1: "\<forall>c \<in> set d1. is_digit c" "d1 \<noteq> []"
      and d2: "\<forall>c \<in> set d2. is_digit c" "d2 \<noteq> []"
  shows "bt location_re (f @ 58 # d1 @ 58 # d2) 0 [] []
         = Some (length (f @ 58 # d1 @ 58 # d2), [f, d1, d2])"
proof -
  let ?s = "f @ 58 # d1 @ 58 # d2"
  let ?g = "\<lambda>k. bt (Close # location_tail1) ?s (0 + k) [0] []"
  have all: "\<forall>c \<in> set ?s. not_line_terminator c"
    using f d1 d2 by (auto simp: colon_not_lt digit_not_lt)
  have len: "Suc 0 \<le> length f" "length f \<le> length ?s"
    using f by (cases f) simp_all
  have "[Suc 0..<Suc (length ?s)] = [Suc 0..<length f] @ length f # [Suc (length f)..<Suc (length ?s)]"
    using len upt_split [of "Suc 0" "length f" "Suc (length ?s)"] by (simp add: upt_conv_Cons del: upt_Suc)
  then have cand: "candidates not_line_terminator (Suc 0) None ?s
               = rev [Suc (length f)..<Suc (length ?s)] @ length f # rev [Suc 0..<length f]"
    using all by (simp add: candidates_def takeWhile_all Let_def del: upt_Suc)
  have none: "?g k = None" if "k \<in> set (rev [Suc (length f)..<Suc (length ?s)])" for k
  proof -
    from that have "length f < k" by (simp del: upt_Suc)
    then have "bt location_tail1 ?s k [] [take k ?s] = None"
      by (rule location_tail1_fail [OF d1(1) d2(1)])
    then show ?thesis by simp
  qed
  have hit: "?g (length f) = Some (length ?s, [f, d1, d2])"
    using location_tail1_ok [OF d1 d2, of f "[]" "[f]"] by simp
  have "first_some ?g (rev [Suc (length f)..<Suc (length ?s)] @ length f # rev [Suc 0..<length f])
        = first_some ?g (length f # rev [Suc 0..<length f])"
    by (rule first_some_append_None) (rule none)
  also have "\<dots> = Some (length ?s, [f, d1, d2])"
    by (simp only: first_some.simps hit option.case)
  finally have "first_some ?g (candidates not_line_terminator (Suc 0) None ?s) = Some (length ?s, [f, d1, d2])"
    by (simp only: cand)
  then show ?thesis
    by (simp add: location_re_def location_tail1_def location_tail2_def)
qed

lemma regex_match_location:
  assumes f: "f \<noteq> []" "\<forall>c \<in> set f. not_line_terminator c"
      and d1: "\<forall>c \<in> set d1. is_digit c" "d1 \<noteq> []"
      and d2: "\<forall>c \<in> set d2. is_digit c" "d2 \<noteq> []"
  shows "regex_match location_re (f @ 58 # d1 @ 58 # d2) = Some (f @ 58 # d1 @ 58 # d2, [f, d1, d2])"
proof -
  have "[0..<Suc (length (f @ 58 # d1 @ 58 # d2))] = 0 # [Suc 0..<Suc (length (f @ 58 # d1 @ 58 # d2))]"
    by (simp add: upt_conv_Cons del: upt_Suc)
  then show ?thesis
    unfolding regex_match_def using location_re_match [OF assms] by (simp del: upt_Suc)
qed

subsection \<open>Greedy repetition\<close>



lemma candidates_rep_max: "candidates P lo hi t = rev [lo..<Suc (rep_max P hi t)]"
  by (simp add: candidates_def rep_max_def Let_def)






lemma bt_one_at:
  assumes "s = a @ c # b" and "P c"
  shows "bt (One P # r) s (length a) opens caps = bt r s (length (a @ [c])) opens caps"
  using assms by (simp add: nth_append)

lemma takeWhile_run: "list_all P xs \<Longrightarrow> takeWhile P (xs @ ys) = xs @ takeWhile P ys"
  by (simp add: list_all_iff)



lemma parse_sourceLocation:
  assumes "f \<noteq> []" "\<forall>c \<in> set f. not_line_terminator c" and "l < 2 ^ 53" "c < 2 ^ 53"
  shows "parseSourceLocation (sourceLocation f l c)
         = Some \<lparr>loc_file = f, loc_line = l, loc_column = c, loc_raw = sourceLocation f l c\<rparr>"
proof -
  have s: "sourceLocation f l c = f @ 58 # toString l @ 58 # toString c"
    by (simp add: sourceLocation_def asc_colon)
  show ?thesis
    unfolding parseSourceLocation_def s
    using regex_match_location [OF assms(1,2) toString_digits toString_nonempty toString_digits
        toString_nonempty, of l c]
    by (simp add: parseInt_toString [OF assms(3)] parseInt_toString [OF assms(4)])
qed

lemma control_or_separator:
  "\<not> is_control c \<Longrightarrow> c \<noteq> 8232 \<Longrightarrow> c \<noteq> 8233 \<Longrightarrow> not_line_terminator c"
  by (auto simp: is_control_def not_line_terminator_def is_line_terminator_def)

text \<open>
  C5, as the code has it: for every non-empty file string that contains no control
  character and neither U+2028 nor U+2029, and for all line and column numbers below
  \<open>2 ^ 53\<close>, decoding the token \<open>file:line:column\<close> gives back the file, the line and the
  column (and the token itself as \<open>raw\<close>).
\<close>

theorem codec_roundtrip:
  assumes "f \<noteq> []" and "\<forall>c \<in> set f. \<not> is_control c" and "8232 \<notin> set f" and "8233 \<notin> set f"
    and "l < 2 ^ 53" and "c < 2 ^ 53"
  shows "parseSourceLocation (sourceLocation f l c)
         = Some \<lparr>loc_file = f, loc_line = l, loc_column = c, loc_raw = sourceLocation f l c\<rparr>"
proof (rule parse_sourceLocation)
  show "f \<noteq> []" by fact
  show "\<forall>c \<in> set f. not_line_terminator c"
    using assms(2-4) control_or_separator by metis
  show "l < 2 ^ 53" "c < 2 ^ 53" by fact+
qed

theorem codec_roundtrip_witness:
  "asc ''/a/b.tsx'' \<noteq> [] \<and> list_all (\<lambda>c. \<not> is_control c) (asc ''/a/b.tsx'') \<and>
   8232 \<notin> set (asc ''/a/b.tsx'') \<and> 8233 \<notin> set (asc ''/a/b.tsx'') \<and>
   (10::nat) < 2 ^ 53 \<and> (5::nat) < 2 ^ 53 \<and>
   parseSourceLocation (sourceLocation (asc ''/a/b.tsx'') 10 5)
   = Some \<lparr>loc_file = asc ''/a/b.tsx'', loc_line = 10, loc_column = 5,
            loc_raw = sourceLocation (asc ''/a/b.tsx'') 10 5\<rparr>"
proof -
  have h: "asc ''/a/b.tsx'' \<noteq> []" "\<forall>c \<in> set (asc ''/a/b.tsx''). \<not> is_control c"
    "8232 \<notin> set (asc ''/a/b.tsx'')" "8233 \<notin> set (asc ''/a/b.tsx'')"
    by (simp_all add: asc_def is_control_def)
  have b: "(10::nat) < 2 ^ 53" "(5::nat) < 2 ^ 53" by simp_all
  show ?thesis
    using h b codec_roundtrip [OF h b] by (simp add: list_all_iff)
qed

text \<open>
  C5, as it is stated, fails for the empty file string, which contains no control
  character: the token \<open>:1:0\<close> is not decoded, because the file group \<open>(.+)\<close> needs a
  character. It fails as well for a file string with the line separator U+2028, which
  is not a control character and which \<open>.\<close> does not match.
\<close>

theorem codec_roundtrip_fails:
  "parseSourceLocation (sourceLocation [] 1 0) = None \<and>
   \<not> is_control 8232 \<and> parseSourceLocation (sourceLocation [97, 8232] 1 0) = None"
  by code_simp

section \<open>Properties of the display path\<close>

lemma first_some_exists:
  "x \<in> set xs \<Longrightarrow> f x \<noteq> None \<Longrightarrow> first_some f xs \<noteq> None"
  by (induction xs) (auto split: option.splits)

lemma rep_some:
  assumes "lo \<le> k" "k \<le> rep_max P hi (drop i s)" "bt r s (i + k) opens caps \<noteq> None"
  shows "bt (Rep P lo hi # r) s i opens caps \<noteq> None"
  unfolding bt.simps candidates_rep_max
  by (rule first_some_exists [of k]) (use assms in auto)

lemma split_nonempty: "split P s \<noteq> []"
  by (induction s) (auto split: list.splits)

lemma split_none: "list_all (\<lambda>c. \<not> P c) s \<Longrightarrow> split P s = [s]"
  by (induction s) auto

lemma split_at:
  "P c \<Longrightarrow> split P (xs @ c # ys) = split P xs @ split P ys"
proof (induction xs)
  case Nil
  then show ?case by simp
next
  case (Cons x xs)
  then show ?case
    using split_nonempty [of P xs] by (cases "split P xs") auto
qed

lemma digit_not_separator: "is_digit c \<Longrightarrow> \<not> is_separator c"
  by (auto simp: is_digit_def is_separator_def)

lemma colon_not_separator: "\<not> is_separator 58"
  by (simp add: is_separator_def)

text \<open>The parts of a path that ends in a directory, a separator and a file name.\<close>

lemma split_path:
  assumes "pre = [] \<or> is_separator (last pre)" and "list_all (\<lambda>c. \<not> is_separator c) parentDir"
    and "is_separator s" and "list_all (\<lambda>c. \<not> is_separator c) fileName"
  shows "\<exists>parts. split is_separator (pre @ parentDir @ s # fileName) = parts @ [parentDir, fileName]"
proof -
  have 1: "split is_separator (pre @ parentDir @ s # fileName)
           = split is_separator (pre @ parentDir) @ [fileName]"
    using split_at [where P = is_separator, OF assms(3), of "pre @ parentDir" fileName] split_none [OF assms(4)] by simp
  have "\<exists>parts. split is_separator (pre @ parentDir) = parts @ [parentDir]"
  proof (cases "pre = []")
    case True
    then show ?thesis using split_none [OF assms(2)] by simp
  next
    case False
    then obtain pre' s' where pre: "pre = pre' @ [s']" by (cases pre rule: rev_cases) auto
    with assms(1) have l: "is_separator s'" by simp
    have "split is_separator (pre @ parentDir) = split is_separator pre' @ [parentDir]"
      using split_at [where P = is_separator, OF l, of pre' parentDir] split_none [OF assms(2)]
      by (simp add: pre)
    then show ?thesis by blast
  qed
  with 1 show ?thesis by auto
qed

lemma rep_max_run:
  "list_all P xs \<Longrightarrow> length xs \<le> rep_max P None (xs @ ys)"
  by (simp add: rep_max_def takeWhile_run)

lemma positive_length: "xs \<noteq> [] \<Longrightarrow> 1 \<le> length xs"
  by (cases xs) simp_all

lemma display_tail2:
  assumes s: "s = x @ d2" and "d2 \<noteq> []" "list_all is_digit d2"
  shows "bt [plus is_digit, Close, Eol] s (length x) [b] [] \<noteq> None"
proof (rule rep_some [where k = "length d2"])
  show "1 \<le> length d2" by (rule positive_length) fact
  have "drop (length x) s = d2 @ []" by (simp add: s)
  then show "length d2 \<le> rep_max is_digit None (drop (length x) s)"
    using rep_max_run [OF assms(3), of "[]"] by (simp only:)
  have "length x + length d2 = length s" by (simp add: s)
  then show "bt [Close, Eol] s (length x + length d2) [b] [] \<noteq> None"
    by simp
qed

lemma display_tail1:
  assumes s: "s = x @ d1 @ 58 # d2" and "d1 \<noteq> []" "list_all is_digit d1"
    and "d2 \<noteq> []" "list_all is_digit d2"
  shows "bt [plus is_digit, One (\<lambda>c. c = 58), plus is_digit, Close, Eol] s (length x) [b] []
         \<noteq> None"
proof (rule rep_some [where k = "length d1"])
  show "1 \<le> length d1" by (rule positive_length) fact
  have "drop (length x) s = d1 @ 58 # d2" by (simp add: s)
  then show "length d1 \<le> rep_max is_digit None (drop (length x) s)"
    using rep_max_run [OF assms(3), of "58 # d2"] by (simp only:)
  have e: "s = (x @ d1) @ 58 # d2" by (simp add: s)
  have e': "s = (x @ d1 @ [58]) @ d2" by (simp add: s)
  have "bt [One (\<lambda>c. c = 58), plus is_digit, Close, Eol] s (length (x @ d1)) [b] []
        = bt [plus is_digit, Close, Eol] s (length ((x @ d1) @ [58])) [b] []"
    by (rule bt_one_at [OF e]) simp
  also have "\<dots> \<noteq> None"
    using display_tail2 [OF e' assms(4,5), of b] by simp
  finally show "bt [One (\<lambda>c. c = 58), plus is_digit, Close, Eol] s (length x + length d1) [b] []
                \<noteq> None"
    by simp
qed

lemma display_tail0:
  assumes s: "s = x @ base @ 58 # d1 @ 58 # d2"
    and "base \<noteq> []" "list_all (\<lambda>c. \<not> is_separator c) base"
    and "d1 \<noteq> []" "list_all is_digit d1" and "d2 \<noteq> []" "list_all is_digit d2"
  shows "bt [plus (\<lambda>c. \<not> is_separator c), One (\<lambda>c. c = 58), plus is_digit,
             One (\<lambda>c. c = 58), plus is_digit, Close, Eol] s (length x) [b] []
         \<noteq> None"
proof (rule rep_some [where k = "length base"])
  show "1 \<le> length base" by (rule positive_length) fact
  have "drop (length x) s = base @ 58 # d1 @ 58 # d2" by (simp add: s)
  then show "length base \<le> rep_max (\<lambda>c. \<not> is_separator c) None (drop (length x) s)"
    using rep_max_run [of "\<lambda>c. \<not> is_separator c", OF assms(3), of "58 # d1 @ 58 # d2"]
    by (simp only:)
  have e: "s = (x @ base) @ 58 # d1 @ 58 # d2" by (simp add: s)
  have e': "s = (x @ base @ [58]) @ d1 @ 58 # d2" by (simp add: s)
  have "bt [One (\<lambda>c. c = 58), plus is_digit, One (\<lambda>c. c = 58), plus is_digit, Close, Eol] s
          (length (x @ base)) [b] []
        = bt [plus is_digit, One (\<lambda>c. c = 58), plus is_digit, Close, Eol] s
            (length ((x @ base) @ [58])) [b] []"
    by (rule bt_one_at [OF e]) simp
  also have "\<dots> \<noteq> None"
    using display_tail1 [OF e' assms(4-7), of b] by simp
  finally show "bt [One (\<lambda>c. c = 58), plus is_digit, One (\<lambda>c. c = 58), plus is_digit, Close, Eol]
                  s (length x + length base) [b] [] \<noteq> None"
    by simp
qed

text \<open>The expression matches a text that ends in a name, a line and a column.\<close>

lemma display_re_matches:
  assumes "base \<noteq> []" "list_all (\<lambda>c. \<not> is_separator c) base"
    and "d1 \<noteq> []" "list_all is_digit d1" and "d2 \<noteq> []" "list_all is_digit d2"
  shows "regex_match display_re (x @ base @ 58 # d1 @ 58 # d2) \<noteq> None"
proof -
  let ?s = "x @ base @ 58 # d1 @ 58 # d2"
  have "bt display_re ?s (length x) [] [] \<noteq> None"
    using display_tail0 [OF refl assms, of x "length x"] by (simp add: display_re_def)
  then have c: "(case bt display_re ?s (length x) [] [] of None \<Rightarrow> None
              | Some (e, caps) \<Rightarrow> Some (take (e - length x) (drop (length x) ?s), caps)) \<noteq> None"
    by (auto split: option.splits)
  have mem: "length x \<in> set [0..<Suc (length ?s)]" by simp
  show ?thesis
    unfolding regex_match_def
  proof (rule first_some_exists [where x = "length x"])
    show "length x \<in> set [0..<Suc (length ?s)]" by (rule mem)
    show "(case bt display_re ?s (length x) [] [] of None \<Rightarrow> None
           | Some (e, caps) \<Rightarrow> Some (take (e - length x) (drop (length x) ?s), caps)) \<noteq> None"
      by (rule c)
  qed
qed

lemma display_path_relative:
  assumes "pre = [] \<or> is_separator (last pre)" and "list_all (\<lambda>c. \<not> is_separator c) parentDir"
    and "is_separator s" and "base \<noteq> []" and "list_all (\<lambda>c. \<not> is_separator c) base"
    and "d1 \<noteq> []" and "list_all is_digit d1" and "d2 \<noteq> []" and "list_all is_digit d2"
  shows "getDisplayPath (asc ''relative'') (pre @ parentDir @ s # base @ 58 # d1 @ 58 # d2)
         = parentDir @ asc ''/'' @ base @ 58 # d1 @ 58 # d2"
proof -
  let ?f = "base @ 58 # d1 @ 58 # d2"
  have f: "list_all (\<lambda>c. \<not> is_separator c) ?f"
    using assms(5,7,9) digit_not_separator colon_not_separator by (auto simp: list_all_iff)
  from split_path [OF assms(1-3) f] obtain parts where
    p: "split is_separator (pre @ parentDir @ s # ?f) = parts @ [parentDir, ?f]" ..
  have "regex_match display_re ((pre @ parentDir @ [s]) @ base @ 58 # d1 @ 58 # d2) \<noteq> None"
    by (rule display_re_matches [OF assms(4-9)])
  then obtain m caps where
    m: "regex_match display_re (pre @ parentDir @ s # ?f) = Some (m, caps)"
    by auto
  have n: "(parts @ [parentDir, ?f]) ! (length (parts @ [parentDir, ?f]) - 1) = ?f"
    "(parts @ [parentDir, ?f]) ! (length (parts @ [parentDir, ?f]) - 2) = parentDir"
    "2 \<le> length (parts @ [parentDir, ?f])"
    by (simp_all add: nth_append)
  show ?thesis
    unfolding getDisplayPath_def m p Let_def using n by (simp add: asc_def)
qed

text \<open>
  C7. With the setting \<open>relative\<close>, the display path of a token that ends in a directory
  name, a separator, a file name, a line and a column is the directory name, a slash
  and the rest: the last two segments of the path with the line and the column. (The
  directory name is the whole segment before the file name: what comes before it is
  empty or ends in a separator.) So the display path of
  \<open>/Users/me/app/components/Button.tsx:10:5\<close> is \<open>components/Button.tsx:10:5\<close>. With any other
  setting, the display path of a token is the token.
\<close>

theorem display_path_derivation:
  "getDisplayPath (asc ''relative'') (asc ''/Users/me/app/components/Button.tsx:10:5'')
     = asc ''components/Button.tsx:10:5'' \<and>
   (\<forall>pre parentDir s base d1 d2.
      (pre = [] \<or> is_separator (last pre)) \<and> list_all (\<lambda>c. \<not> is_separator c) parentDir \<and>
      is_separator s \<and> base \<noteq> [] \<and> list_all (\<lambda>c. \<not> is_separator c) base \<and>
      d1 \<noteq> [] \<and> list_all is_digit d1 \<and> d2 \<noteq> [] \<and> list_all is_digit d2 \<longrightarrow>
      getDisplayPath (asc ''relative'') (pre @ parentDir @ s # base @ 58 # d1 @ 58 # d2)
        = parentDir @ asc ''/'' @ base @ 58 # d1 @ 58 # d2) \<and>
   (\<forall>setting fullPath. setting \<noteq> asc ''relative'' \<longrightarrow> getDisplayPath setting fullPath = fullPath)"
proof (intro conjI allI impI)
  show "getDisplayPath (asc ''relative'') (asc ''/Users/me/app/components/Button.tsx:10:5'')
          = asc ''components/Button.tsx:10:5''"
    by code_simp
  show "getDisplayPath (asc ''relative'') (pre @ parentDir @ s # base @ 58 # d1 @ 58 # d2)
        = parentDir @ asc ''/'' @ base @ 58 # d1 @ 58 # d2"
    if "(pre = [] \<or> is_separator (last pre)) \<and> list_all (\<lambda>c. \<not> is_separator c) parentDir \<and>
        is_separator s \<and> base \<noteq> [] \<and> list_all (\<lambda>c. \<not> is_separator c) base \<and>
        d1 \<noteq> [] \<and> list_all is_digit d1 \<and> d2 \<noteq> [] \<and> list_all is_digit d2"
    for pre parentDir s base d1 d2
    using that by (intro display_path_relative) simp_all
  show "getDisplayPath setting fullPath = fullPath" if "setting \<noteq> asc ''relative''"
    for setting fullPath
    using that by (simp add: getDisplayPath_def)
qed

theorem display_path_derivation_witness:
  "(asc ''/Users/me/app/'' = [] \<or> is_separator (last (asc ''/Users/me/app/''))) \<and>
   list_all (\<lambda>c. \<not> is_separator c) (asc ''components'') \<and> is_separator 47 \<and>
   asc ''Button.tsx'' \<noteq> [] \<and> list_all (\<lambda>c. \<not> is_separator c) (asc ''Button.tsx'') \<and>
   asc ''10'' \<noteq> [] \<and> list_all is_digit (asc ''10'') \<and>
   asc ''5'' \<noteq> [] \<and> list_all is_digit (asc ''5'') \<and>
   getDisplayPath (asc ''relative'')
     (asc ''/Users/me/app/'' @ asc ''components'' @ 47 # asc ''Button.tsx'' @ 58 # asc ''10'' @
      58 # asc ''5'')
     = asc ''components'' @ asc ''/'' @ asc ''Button.tsx'' @ 58 # asc ''10'' @ 58 # asc ''5'' \<and>
   asc ''absolute'' \<noteq> asc ''relative'' \<and>
   getDisplayPath (asc ''absolute'') (asc ''/Users/me/app/components/Button.tsx:10:5'')
     = asc ''/Users/me/app/components/Button.tsx:10:5''"
proof -
  have h: "asc ''absolute'' \<noteq> asc ''relative''"
    by (simp add: asc_def)
  have g: "(asc ''/Users/me/app/'' = [] \<or> is_separator (last (asc ''/Users/me/app/''))) \<and>
     list_all (\<lambda>c. \<not> is_separator c) (asc ''components'') \<and> is_separator 47 \<and>
     asc ''Button.tsx'' \<noteq> [] \<and> list_all (\<lambda>c. \<not> is_separator c) (asc ''Button.tsx'') \<and>
     asc ''10'' \<noteq> [] \<and> list_all is_digit (asc ''10'') \<and>
     asc ''5'' \<noteq> [] \<and> list_all is_digit (asc ''5'')"
    by (simp add: asc_def is_separator_def is_digit_def)
  from display_path_derivation
  have 1: "asc ''absolute'' \<noteq> asc ''relative'' \<longrightarrow>
        getDisplayPath (asc ''absolute'') (asc ''/Users/me/app/components/Button.tsx:10:5'')
          = asc ''/Users/me/app/components/Button.tsx:10:5''"
    by blast
  from display_path_derivation g
  have 2: "getDisplayPath (asc ''relative'')
     (asc ''/Users/me/app/'' @ asc ''components'' @ 47 # asc ''Button.tsx'' @ 58 # asc ''10'' @
      58 # asc ''5'')
     = asc ''components'' @ asc ''/'' @ asc ''Button.tsx'' @ 58 # asc ''10'' @ 58 # asc ''5''"
    by blast
  from h g 1 2 show ?thesis by blast
qed

section \<open>Properties of the loader\<close>

text \<open>
  C8, as it is stated, fails: in a production build, with the option \<open>production\<close> false,
  the loader throws when the options do not fit its schema, here for a
  \<open>tooltipPathDisplay\<close> that is neither \<open>absolute\<close> nor \<open>relative\<close>; the validation comes
  before the test for a production build.
\<close>

theorem production_skip_throws:
  "NODE_ENV (page_env\<lparr>NODE_ENV := Some (asc ''production'')\<rparr>) = Some (asc ''production'') \<and>
   get_prop
     (JObject [(asc ''production'', JBool False),
               (asc ''runtime'',
                  JObject [(asc ''tooltipPathDisplay'', JString (asc ''sideways''))])])
     (asc ''production'') = Some (JBool False) \<and>
   turbopackSourceLoader (page_env\<lparr>NODE_ENV := Some (asc ''production'')\<rparr>)
     (JObject [(asc ''production'', JBool False),
               (asc ''runtime'',
                  JObject [(asc ''tooltipPathDisplay'', JString (asc ''sideways''))])])
     (asc ''/app/page.tsx'') page_source
   = Inl ValidationError"
  by code_simp

text \<open>
  C8, as the code has it: in a production build, with the option \<open>production\<close> false or
  absent, the loader returns its input text if the options fit the schema, and throws a
  validation error if they do not.
\<close>

theorem production_skip:
  assumes "NODE_ENV env = Some (asc ''production'')"
    and "\<not> truthy (get_prop (loader_options rawOptions) (asc ''production''))"
  shows "turbopackSourceLoader env rawOptions resourcePath source
         = (if validate schema (loader_options rawOptions) then Inr source
            else Inl ValidationError)"
  using assms by (simp add: turbopackSourceLoader_def)

theorem production_skip_witness:
  "NODE_ENV (page_env\<lparr>NODE_ENV := Some (asc ''production'')\<rparr>) = Some (asc ''production'') \<and>
   \<not> truthy (get_prop
               (loader_options
                  (JObject [(asc ''production'', JBool False), (asc ''runtime'', JObject [])]))
               (asc ''production'')) \<and>
   validate schema
     (loader_options (JObject [(asc ''production'', JBool False), (asc ''runtime'', JObject [])])) \<and>
   turbopackSourceLoader (page_env\<lparr>NODE_ENV := Some (asc ''production'')\<rparr>)
     (JObject [(asc ''production'', JBool False), (asc ''runtime'', JObject [])])
     (asc ''/app/page.tsx'') page_source
   = Inr page_source"
proof -
  let ?o = "JObject [(asc ''production'', JBool False), (asc ''runtime'', JObject [])]"
  have h1: "NODE_ENV (page_env\<lparr>NODE_ENV := Some (asc ''production'')\<rparr>) = Some (asc ''production'')"
    by simp
  have h2: "\<not> truthy (get_prop (loader_options ?o) (asc ''production''))"
    by (simp add: loader_options_def)
  have v: "validate schema (loader_options ?o)"
    by code_simp
  from production_skip [OF h1 h2, of "asc ''/app/page.tsx''" page_source] h1 h2 v
  show ?thesis by simp
qed


lemma has_filter: "hasAttribute xs n = (filter (is_named n) xs \<noteq> [])"
  by (simp add: hasAttribute_def list_ex_iff filter_empty_conv)






section \<open>Properties of the editor URI\<close>

text \<open>
  C10: the URI that \<open>openInEditor\<close> builds from a location and an editor configuration
  object does not depend on the field \<open>useAbsolutePath\<close>: whatever it is, true, false or
  absent, the result (the URI opened, or the error thrown) is the same.
\<close>

theorem useAbsolutePath_has_no_effect:
  "openInEditor has_window location (Custom (config\<lparr>useAbsolutePath := u\<rparr>))
   = openInEditor has_window location (Custom config)"
  by (simp add: openInEditor_def Let_def split: sum.splits)

theorem useAbsolutePath_has_no_effect_witness:
  "openInEditor True
     \<lparr>loc_file = asc ''/a/b.tsx'', loc_line = 3, loc_column = 5, loc_raw = asc ''/a/b.tsx:3:5''\<rparr>
     (Custom (\<lparr>handler = asc ''ed://{file}:{line}'', useAbsolutePath = Some True\<rparr>
                \<lparr>useAbsolutePath := Some False\<rparr>))
   = openInEditor True
     \<lparr>loc_file = asc ''/a/b.tsx'', loc_line = 3, loc_column = 5, loc_raw = asc ''/a/b.tsx:3:5''\<rparr>
     (Custom \<lparr>handler = asc ''ed://{file}:{line}'', useAbsolutePath = Some True\<rparr>)"
  by (rule useAbsolutePath_has_no_effect)


section \<open>Properties of the substitution into the handler template\<close>

lemma getSubstitution_plain: "36 \<notin> set rep \<Longrightarrow> getSubstitution m b a rep = rep"
  by (induction m b a rep rule: getSubstitution.induct) auto

lemma replace_leftmost_indexOf:
  "replace_leftmost s pat rep =
     (case indexOf pat s of None \<Rightarrow> s | Some i \<Rightarrow> take i s @ rep @ drop (i + length pat) s)"
  by (induction s) (auto split: option.splits)

lemma replace_plain: "36 \<notin> set rep \<Longrightarrow> replace s pat rep = replace_leftmost s pat rep"
  by (simp add: replace_def replace_leftmost_indexOf getSubstitution_plain Let_def split: option.splits)

lemma indexOf_least:
  "indexOf pat s = Some i \<Longrightarrow>
   take (length pat) (drop i s) = pat \<and> (\<forall>j < i. take (length pat) (drop j s) \<noteq> pat)"
proof (induction s arbitrary: i)
  case Nil
  then show ?case by (auto split: if_splits)
next
  case (Cons c s)
  show ?case
  proof (cases "take (length pat) (c # s) = pat")
    case True
    with Cons.prems show ?thesis by simp
  next
    case False
    with Cons.prems obtain k where k: "indexOf pat s = Some k" "i = Suc k"
      by (auto split: option.splits)
    from Cons.IH [OF k(1)] False k(2) show ?thesis
      by (auto simp: less_Suc_eq_0_disj)
  qed
qed

lemma indexOf_none:
  "indexOf pat s = None \<Longrightarrow> \<forall>j \<le> length s. take (length pat) (drop j s) \<noteq> pat"
proof (induction s)
  case Nil
  then show ?case by (auto split: if_splits)
next
  case (Cons c s)
  then have a: "take (length pat) (c # s) \<noteq> pat" and b: "indexOf pat s = None"
    by (auto split: if_splits option.splits)
  show ?case
  proof (intro allI impI)
    fix j assume j: "j \<le> length (c # s)"
    show "take (length pat) (drop j (c # s)) \<noteq> pat"
    proof (cases j)
      case 0
      with a show ?thesis by simp
    next
      case (Suc k)
      with j Cons.IH [OF b] show ?thesis by simp
    qed
  qed
qed

lemma word16_of_nat_neq: "n < 65536 \<Longrightarrow> m < 65536 \<Longrightarrow> n \<noteq> m \<Longrightarrow> (word_of_nat n :: 16 word) \<noteq> word_of_nat m"
  by (simp add: word_of_nat_eq_iff take_bit_nat_eq_self)

lemma hex_upper_not_dollar: "k < 16 \<Longrightarrow> hex_upper k \<noteq> 36"
  using word16_of_nat_neq [of "48 + k" 36] word16_of_nat_neq [of "55 + k" 36]
  by (auto simp: hex_upper_def simp del: of_nat_add)

lemma percent_no_dollar: "b < 256 \<Longrightarrow> 36 \<notin> set (percent b)"
  by (simp add: percent_def hex_upper_not_dollar less_mult_imp_div_less eq_commute [of 36])

lemma utf8_bytes: "cp < 1114112 \<Longrightarrow> \<forall>b \<in> set (utf8 cp). b < 256"
  by (auto simp: utf8_def)

lemma percent_utf8_no_dollar: "cp < 1114112 \<Longrightarrow> 36 \<notin> set (percent_utf8 cp)"
  using utf8_bytes [of cp] by (auto simp: percent_utf8_def percent_no_dollar)

lemma unat16_bound: "unat (c :: 16 word) < 1114112"
  using unsigned_less [of c, where 'a = nat] by simp

lemma code_point_bound:
  "is_lead_surrogate c \<Longrightarrow> is_trail_surrogate d \<Longrightarrow> code_point c d < 1114112"
proof -
  assume "is_lead_surrogate c" "is_trail_surrogate d"
  then have a: "unat c - 55296 \<le> 1023" and b: "unat d - 56320 \<le> 1023"
    unfolding is_lead_surrogate_def is_trail_surrogate_def word_le_nat_alt by simp_all linarith+
  from a have "(unat c - 55296) * 1024 \<le> 1023 * 1024"
    by (rule mult_le_mono1)
  with b show ?thesis
    by (simp add: code_point_def)
qed

lemma unreserved_not_dollar: "uriUnreserved c \<Longrightarrow> c \<noteq> 36"
  by (auto simp: uriUnreserved_def)

lemma encodeURIComponent_no_dollar: "encodeURIComponent s = Inr e \<Longrightarrow> 36 \<notin> set e"
proof (induction s arbitrary: e rule: encodeURIComponent.induct)
  case 1
  then show ?case by simp
next
  case (2 c s)
  show ?case
  proof (cases "uriUnreserved c")
    case True
    with 2 show ?thesis
      by (auto split: sum.splits dest: unreserved_not_dollar)
  next
    case u: False
    show ?thesis
    proof (cases "is_lead_surrogate c")
      case True
      with u 2 show ?thesis
        by (auto split: sum.splits list.splits if_splits
                 dest: percent_utf8_no_dollar [OF code_point_bound])
    next
      case False
      with u 2 show ?thesis
        using percent_utf8_no_dollar [OF unat16_bound, of c]
        by (auto split: sum.splits if_splits)
    qed
  qed
qed

lemma toString_no_dollar: "36 \<notin> set (toString n)"
  using toString_digits [of n] by (auto simp: is_digit_def)

text \<open>
  C4, as the code has it: \<open>openInEditor\<close> substitutes the percent-encoded file, the line
  and the column, in this order and literally, each into the leftmost occurrence of its
  placeholder in the handler template; further occurrences of a placeholder stay in the
  URI. (\<open>replace_leftmost\<close> replaces the occurrence that \<open>indexOf\<close> finds, the one with no
  occurrence before it: \<open>replace_leftmost_indexOf\<close> and \<open>indexOf_least\<close>.)
\<close>

theorem placeholders_leftmost:
  assumes "encodeURIComponent (loc_file location) = Inr encoded"
  shows "openInEditor True location (Custom config)
         = Inr (Some (replace_leftmost
                        (replace_leftmost
                           (replace_leftmost (handler config) (asc ''{file}'') encoded)
                           (asc ''{line}'') (toString (loc_line location)))
                        (asc ''{column}'') (toString (loc_column location))))"
  using assms
  by (simp add: openInEditor_def Let_def replace_plain encodeURIComponent_no_dollar
        toString_no_dollar)

text \<open>A template in which \<open>{file}\<close> occurs twice: the second occurrence is left.\<close>

theorem placeholders_leftmost_witness:
  "encodeURIComponent (asc ''/a/b c.tsx'') = Inr (asc ''%2Fa%2Fb%20c.tsx'') \<and>
   openInEditor True
     \<lparr>loc_file = asc ''/a/b c.tsx'', loc_line = 3, loc_column = 5, loc_raw = asc ''/a/b c.tsx:3:5''\<rparr>
     (Custom \<lparr>handler = asc ''ed://{file}:{line}:{column}?again={file}'', useAbsolutePath = None\<rparr>)
   = Inr (Some (asc ''ed://%2Fa%2Fb%20c.tsx:3:5?again={file}''))"
proof -
  have h: "encodeURIComponent (loc_file \<lparr>loc_file = asc ''/a/b c.tsx'', loc_line = 3, loc_column = 5,
             loc_raw = asc ''/a/b c.tsx:3:5''\<rparr>) = Inr (asc ''%2Fa%2Fb%20c.tsx'')"
    by code_simp
  have r: "replace_leftmost
             (replace_leftmost
                (replace_leftmost (asc ''ed://{file}:{line}:{column}?again={file}'')
                   (asc ''{file}'') (asc ''%2Fa%2Fb%20c.tsx''))
                (asc ''{line}'') (toString 3))
             (asc ''{column}'') (toString 5)
           = asc ''ed://%2Fa%2Fb%20c.tsx:3:5?again={file}''"
    by code_simp
  show ?thesis
    using h r
      placeholders_leftmost [OF h,
        of "\<lparr>handler = asc ''ed://{file}:{line}:{column}?again={file}'', useAbsolutePath = None\<rparr>"]
    by simp
qed

text \<open>
  C4, as it is stated, fails: with the template \<open>{line}:{line}\<close> and line 7 the URI is
  \<open>7:{line}\<close>, where replacing every occurrence gives \<open>7:7\<close>.
\<close>

theorem placeholder_left_in_uri:
  "openInEditor True
     \<lparr>loc_file = asc ''/a'', loc_line = 7, loc_column = 5, loc_raw = asc ''/a:7:5''\<rparr>
     (Custom \<lparr>handler = asc ''{line}:{line}'', useAbsolutePath = None\<rparr>)
   = Inr (Some (asc ''7:{line}'')) \<and>
   replace_every (asc ''{line}:{line}'') (asc ''{line}'') (toString 7) = asc ''7:7''"
  by code_simp

section \<open>Properties of the merged configuration\<close>

text \<open>
  C2, as it is stated, fails: when the loader configuration sets the styles \<open>outline\<close>
  and \<open>outlineOffset\<close> and the call sets only \<open>outline\<close>, the merged configuration holds
  the styles of the call alone, and the outline offset in effect is the built-in \<open>2px\<close>,
  not the \<open>8px\<close> of the loader configuration.
\<close>

theorem styles_not_merged:
  "styles (spread
     (empty_config\<lparr>styles := Value (no_styles\<lparr>outline := Some (asc ''1px solid red''),
                                               outlineOffset := Some (asc ''8px'')\<rparr>)\<rparr>)
     (empty_config\<lparr>styles := Value (no_styles\<lparr>outline := Some (asc ''3px solid green'')\<rparr>)\<rparr>))
   = Value (no_styles\<lparr>outline := Some (asc ''3px solid green'')\<rparr>) \<and>
   rs_outlineOffset (defaultStyles (or_default (styles (spread
     (empty_config\<lparr>styles := Value (no_styles\<lparr>outline := Some (asc ''1px solid red''),
                                               outlineOffset := Some (asc ''8px'')\<rparr>)\<rparr>)
     (empty_config\<lparr>styles := Value (no_styles\<lparr>outline := Some (asc ''3px solid green'')\<rparr>)\<rparr>)))
     no_styles))
   = asc ''2px''"
  by (simp add: spread_def spread_prop_def empty_config_def no_styles_def defaultStyles_def
        or_default_def or_else_def)

section \<open>Properties of the navigator\<close>

subsection \<open>The fields of the page after each step\<close>

lemma addEventListener_fields [simp]:
  "listeners (addEventListener t l c w) =
     (if (t, l, c) \<in> set (listeners w) then listeners w else listeners w @ [(t, l, c)])"
  "observers (addEventListener t l c w) = observers w"
  "head (addEventListener t l c w) = head w"
  "classList (addEventListener t l c w) = classList w"
  "sessions (addEventListener t l c w) = sessions w"
  "fresh (addEventListener t l c w) = fresh w"
  "selector_valid (addEventListener t l c w) = selector_valid w"
  by (simp_all add: addEventListener_def)

lemma removeEventListener_fields [simp]:
  "listeners (removeEventListener t l c w) = removeAll (t, l, c) (listeners w)"
  "observers (removeEventListener t l c w) = observers w"
  "head (removeEventListener t l c w) = head w"
  "classList (removeEventListener t l c w) = classList w"
  "sessions (removeEventListener t l c w) = sessions w"
  "fresh (removeEventListener t l c w) = fresh w"
  "selector_valid (removeEventListener t l c w) = selector_valid w"
  by (simp_all add: removeEventListener_def)

lemma classList_add_fields [simp]:
  "listeners (classList_add x w) = listeners w"
  "observers (classList_add x w) = observers w"
  "head (classList_add x w) = head w"
  "classList (classList_add x w) = (if x \<in> set (classList w) then classList w else classList w @ [x])"
  "sessions (classList_add x w) = sessions w"
  "fresh (classList_add x w) = fresh w"
  "selector_valid (classList_add x w) = selector_valid w"
  by (simp_all add: classList_add_def)

lemma classList_remove_fields [simp]:
  "listeners (classList_remove x w) = listeners w"
  "observers (classList_remove x w) = observers w"
  "head (classList_remove x w) = head w"
  "classList (classList_remove x w) = removeAll x (classList w)"
  "sessions (classList_remove x w) = sessions w"
  "fresh (classList_remove x w) = fresh w"
  "selector_valid (classList_remove x w) = selector_valid w"
  by (simp_all add: classList_remove_def)

lemma disconnect_fields [simp]:
  "listeners (disconnect oid w) = listeners w"
  "observers (disconnect oid w) = filter (\<lambda>(i, sid). i \<noteq> oid) (observers w)"
  "head (disconnect oid w) = head w"
  "classList (disconnect oid w) = classList w"
  "sessions (disconnect oid w) = sessions w"
  "fresh (disconnect oid w) = fresh w"
  "selector_valid (disconnect oid w) = selector_valid w"
  by (simp_all add: disconnect_def)

lemma remove_element_fields [simp]:
  "listeners (remove_element e w) = listeners w"
  "observers (remove_element e w) = observers w"
  "head (remove_element e w) = removeAll e (head w)"
  "classList (remove_element e w) = classList w"
  "sessions (remove_element e w) = sessions w"
  "fresh (remove_element e w) = fresh w"
  "selector_valid (remove_element e w) = selector_valid w"
  by (simp_all add: remove_element_def)

lemma set_isEnabled_fields [simp]:
  "listeners (set_isEnabled sid b w) = listeners w"
  "observers (set_isEnabled sid b w) = observers w"
  "head (set_isEnabled sid b w) = head w"
  "classList (set_isEnabled sid b w) = classList w"
  "fresh (set_isEnabled sid b w) = fresh w"
  "selector_valid (set_isEnabled sid b w) = selector_valid w"
  by (simp_all add: set_isEnabled_def split: option.splits)

lemma set_isEnabled_sessions:
  "sessions (set_isEnabled sid b w) =
     (case sessions w sid of None \<Rightarrow> sessions w
      | Some s \<Rightarrow> (sessions w)(sid \<mapsto> s\<lparr>isEnabled := b\<rparr>))"
  by (simp add: set_isEnabled_def split: option.splits)

lemma createStyles_fields [simp]:
  "listeners (createStyles sid w) = listeners w"
  "observers (createStyles sid w) = observers w"
  "classList (createStyles sid w) = classList w"
  "selector_valid (createStyles sid w) = selector_valid w"
  by (simp_all add: createStyles_def split: option.splits)

lemma createStyles_state:
  "head (createStyles sid w) =
     (case sessions w sid of None \<Rightarrow> head w
      | Some s \<Rightarrow> (case styleElement s of Some e \<Rightarrow> head w | None \<Rightarrow> head w @ [fresh w]))"
  "fresh (createStyles sid w) =
     (case sessions w sid of None \<Rightarrow> fresh w
      | Some s \<Rightarrow> (case styleElement s of Some e \<Rightarrow> fresh w | None \<Rightarrow> Suc (fresh w)))"
  "sessions (createStyles sid w) =
     (case sessions w sid of None \<Rightarrow> sessions w
      | Some s \<Rightarrow> (case styleElement s of Some e \<Rightarrow> sessions w
                   | None \<Rightarrow> (sessions w)(sid \<mapsto> s\<lparr>styleElement := Some (fresh w)\<rparr>)))"
  by (simp_all add: createStyles_def split: option.splits)

lemma processElements_fields:
  "processElements sid w = Inr w' \<Longrightarrow>
   listeners w' = listeners w \<and> observers w' = observers w \<and> head w' = head w \<and>
   classList w' = classList w \<and> sessions w' = sessions w \<and> fresh w' = fresh w \<and>
   selector_valid w' = selector_valid w"
  by (auto simp: processElements_def split: option.splits if_splits)

lemma new_observer_fields [simp]:
  "listeners (new_observer sid w) = listeners w"
  "head (new_observer sid w) = head w"
  "classList (new_observer sid w) = classList w"
  "selector_valid (new_observer sid w) = selector_valid w"
  by (simp_all add: new_observer_def split: option.splits)

lemma new_observer_state:
  "observers (new_observer sid w) =
     (case sessions w sid of None \<Rightarrow> observers w | Some s \<Rightarrow> observers w @ [(fresh w, sid)])"
  "fresh (new_observer sid w) =
     (case sessions w sid of None \<Rightarrow> fresh w | Some s \<Rightarrow> Suc (fresh w))"
  "sessions (new_observer sid w) =
     (case sessions w sid of None \<Rightarrow> sessions w
      | Some s \<Rightarrow> (sessions w)(sid \<mapsto> s\<lparr>observer := Some (fresh w)\<rparr>))"
  by (simp_all add: new_observer_def split: option.splits)

lemma drop_observer_fields [simp]:
  "listeners (drop_observer sid w) = listeners w"
  "head (drop_observer sid w) = head w"
  "classList (drop_observer sid w) = classList w"
  "fresh (drop_observer sid w) = fresh w"
  "selector_valid (drop_observer sid w) = selector_valid w"
  by (simp_all add: drop_observer_def split: option.splits)

lemma drop_observer_state:
  "observers (drop_observer sid w) =
     (case sessions w sid of None \<Rightarrow> observers w
      | Some s \<Rightarrow> (case observer s of None \<Rightarrow> observers w
                   | Some oid \<Rightarrow> filter (\<lambda>(i, sid). i \<noteq> oid) (observers w)))"
  "sessions (drop_observer sid w) =
     (case sessions w sid of None \<Rightarrow> sessions w
      | Some s \<Rightarrow> (case observer s of None \<Rightarrow> sessions w
                   | Some oid \<Rightarrow> (sessions w)(sid \<mapsto> s\<lparr>observer := None\<rparr>)))"
  by (simp_all add: drop_observer_def split: option.splits)

lemmas page_fields = set_isEnabled_sessions createStyles_state new_observer_state drop_observer_state

lemma toggle_off:
  assumes "sessions w sid = Some s" "isEnabled s"
  shows "\<exists>s'. listeners (fst (toggleHighlighting sid w))
              = removeAll (click, clickHandler sid, True) (listeners w) \<and>
            observers (fst (toggleHighlighting sid w))
              = (case observer s of None \<Rightarrow> observers w
                 | Some oid \<Rightarrow> filter (\<lambda>(i, sid). i \<noteq> oid) (observers w)) \<and>
            head (fst (toggleHighlighting sid w)) = head w \<and>
            fresh (fst (toggleHighlighting sid w)) = fresh w \<and>
            classList (fst (toggleHighlighting sid w)) = removeAll marker_class (classList w) \<and>
            sessions (fst (toggleHighlighting sid w)) = (sessions w)(sid \<mapsto> s') \<and>
            \<not> isEnabled s' \<and> observer s' = None \<and> styleElement s' = styleElement s \<and>
            same_settings s s' \<and> snd (toggleHighlighting sid w) = None"
  using assms
  by (cases "observer s")
     (auto simp add: toggleHighlighting_def Let_def page_fields same_settings_def)

lemma toggle_on_throws:
  assumes "sessions w sid = Some s" "\<not> isEnabled s" "\<not> selector_valid w (cfg_attributeName s)"
  shows "\<exists>s'. listeners (fst (toggleHighlighting sid w)) = listeners w \<and>
            observers (fst (toggleHighlighting sid w)) = observers w \<and>
            head (fst (toggleHighlighting sid w))
              = (case styleElement s of Some e \<Rightarrow> head w | None \<Rightarrow> head w @ [fresh w]) \<and>
            fresh (fst (toggleHighlighting sid w))
              = (case styleElement s of Some e \<Rightarrow> fresh w | None \<Rightarrow> Suc (fresh w)) \<and>
            classList (fst (toggleHighlighting sid w)) = classList w \<and>
            sessions (fst (toggleHighlighting sid w)) = (sessions w)(sid \<mapsto> s') \<and>
            isEnabled s' \<and> observer s' = observer s \<and>
            styleElement s'
              = (case styleElement s of Some e \<Rightarrow> Some e | None \<Rightarrow> Some (fresh w)) \<and>
            same_settings s s' \<and> snd (toggleHighlighting sid w) = Some SyntaxError"
  using assms
  by (cases "styleElement s")
     (auto simp add: toggleHighlighting_def Let_def page_fields same_settings_def
        processElements_def)

lemma toggle_on:
  assumes "sessions w sid = Some s" "\<not> isEnabled s" "selector_valid w (cfg_attributeName s)"
  shows "\<exists>s' oid. listeners (fst (toggleHighlighting sid w))
              = (if (click, clickHandler sid, True) \<in> set (listeners w) then listeners w
                 else listeners w @ [(click, clickHandler sid, True)]) \<and>
            observers (fst (toggleHighlighting sid w)) = observers w @ [(oid, sid)] \<and>
            head (fst (toggleHighlighting sid w))
              = (case styleElement s of Some e \<Rightarrow> head w | None \<Rightarrow> head w @ [fresh w]) \<and>
            fresh (fst (toggleHighlighting sid w)) = Suc oid \<and> fresh w \<le> oid \<and>
            classList (fst (toggleHighlighting sid w))
              = (if marker_class \<in> set (classList w) then classList w
                 else classList w @ [marker_class]) \<and>
            sessions (fst (toggleHighlighting sid w)) = (sessions w)(sid \<mapsto> s') \<and>
            isEnabled s' \<and> observer s' = Some oid \<and>
            styleElement s'
              = (case styleElement s of Some e \<Rightarrow> Some e | None \<Rightarrow> Some (fresh w)) \<and>
            (styleElement s = None \<longrightarrow> fresh w < oid) \<and>
            same_settings s s' \<and> snd (toggleHighlighting sid w) = None"
  using assms
  by (cases "styleElement s")
     (auto simp add: toggleHighlighting_def Let_def page_fields same_settings_def
        processElements_def)

subsection \<open>The invariant is kept\<close>

lemma toggle_no_session: "sessions w sid = None \<Longrightarrow> toggleHighlighting sid w = (w, None)"
  by (simp add: toggleHighlighting_def)

lemma inv_listeners_sub:
  assumes "inv_listeners w" "set (listeners w') \<subseteq> set (listeners w)" "distinct (listeners w')"
    and "\<And>k s. sessions w k = Some s \<Longrightarrow> \<exists>s'. sessions w' k = Some s'"
  shows "inv_listeners w'"
  unfolding inv_listeners_def
proof (intro conjI ballI)
  show "distinct (listeners w')" by fact
  fix entry assume "entry \<in> set (listeners w')"
  with assms(2) have "entry \<in> set (listeners w)" by auto
  with assms(1) obtain k s where "sessions w k = Some s"
    "entry = (keydown, keyboardHandler k, False) \<or> entry = (click, clickHandler k, True)"
    unfolding inv_listeners_def by blast
  with assms(4) [of k s] show "\<exists>sid s. sessions w' sid = Some s \<and>
           (entry = (keydown, keyboardHandler sid, False) \<or> entry = (click, clickHandler sid, True))"
    by blast
qed

lemma inv_listeners_add:
  assumes "inv_listeners w"
    and "listeners w' = (if x \<in> set (listeners w) then listeners w else listeners w @ [x])"
    and "x = (keydown, keyboardHandler sid, False) \<or> x = (click, clickHandler sid, True)"
    and "sessions w' sid = Some s0"
    and "\<And>k s. sessions w k = Some s \<Longrightarrow> \<exists>s'. sessions w' k = Some s'"
  shows "inv_listeners w'"
  unfolding inv_listeners_def
proof (intro conjI ballI)
  show "distinct (listeners w')"
    using assms(1,2) by (auto simp: inv_listeners_def)
  fix entry assume e: "entry \<in> set (listeners w')"
  show "\<exists>sid s. sessions w' sid = Some s \<and>
           (entry = (keydown, keyboardHandler sid, False) \<or> entry = (click, clickHandler sid, True))"
  proof (cases "entry \<in> set (listeners w)")
    case True
    with assms(1) obtain k s where "sessions w k = Some s"
      "entry = (keydown, keyboardHandler k, False) \<or> entry = (click, clickHandler k, True)"
      unfolding inv_listeners_def by blast
    with assms(5) [of k s] show ?thesis by blast
  next
    case False
    with e assms(2) have "entry = x" by (auto split: if_splits)
    with assms(3,4) show ?thesis by blast
  qed
qed

lemma inv_head_sub:
  assumes "inv_head w" "set (head w') \<subseteq> set (head w)"
    and "\<And>k s. sessions w k = Some s \<Longrightarrow> \<exists>s'. sessions w' k = Some s' \<and> styleElement s' = styleElement s"
  shows "inv_head w'"
  unfolding inv_head_def
proof
  fix e assume "e \<in> set (head w')"
  with assms(2) have "e \<in> set (head w)" by auto
  with assms(1) obtain k s where "sessions w k = Some s" "styleElement s = Some e"
    unfolding inv_head_def by blast
  with assms(3) [of k s] show "\<exists>sid s. sessions w' sid = Some s \<and> styleElement s = Some e"
    by auto
qed

lemma inv_observers_sub:
  assumes "inv_observers w" "set (observers w') \<subseteq> set (observers w)"
    and "distinct (map fst (observers w'))"
    and "\<And>entry s. entry \<in> set (observers w') \<Longrightarrow> sessions w (snd entry) = Some s \<Longrightarrow>
           observer s = Some (fst entry) \<Longrightarrow> isEnabled s \<Longrightarrow>
           \<exists>s'. sessions w' (snd entry) = Some s' \<and> observer s' = Some (fst entry) \<and> isEnabled s'"
  shows "inv_observers w'"
  unfolding inv_observers_def
proof (intro conjI ballI)
  show "distinct (map fst (observers w'))" by fact
  fix entry assume e: "entry \<in> set (observers w')"
  with assms(2) have "entry \<in> set (observers w)" by auto
  with assms(1) obtain s where "sessions w (snd entry) = Some s" "observer s = Some (fst entry)"
    "isEnabled s"
    unfolding inv_observers_def by blast
  with assms(4) [OF e] show "\<exists>s. sessions w' (snd entry) = Some s \<and> observer s = Some (fst entry) \<and> isEnabled s"
    by blast
qed

lemma inv_observers_bound:
  assumes "inv_observers w" "inv_fresh w" "entry \<in> set (observers w)"
  shows "fst entry < fresh w"
proof -
  from assms(1,3) obtain s where "sessions w (snd entry) = Some s" "observer s = Some (fst entry)"
    unfolding inv_observers_def by blast
  with assms(2) show ?thesis unfolding inv_fresh_def by blast
qed

lemma inv_head_bound:
  assumes "inv_head w" "inv_fresh w" "e \<in> set (head w)"
  shows "e < fresh w"
proof -
  from assms(1,3) obtain k s where "sessions w k = Some s" "styleElement s = Some e"
    unfolding inv_head_def by blast
  with assms(2) show ?thesis unfolding inv_fresh_def by blast
qed

lemma distinct_map_filter_fst: "distinct (map fst xs) \<Longrightarrow> distinct (map fst (filter P xs))"
  by (induction xs) auto

lemma toggle_off_inv:
  assumes inv: "page_inv w" and s: "sessions w sid = Some s" "isEnabled s"
  shows "page_inv (fst (toggleHighlighting sid w))"
proof -
  let ?w = "fst (toggleHighlighting sid w)"
  from toggle_off [OF s] obtain s' where
    l: "listeners ?w = removeAll (click, clickHandler sid, True) (listeners w)" and
    ob: "observers ?w = (case observer s of None \<Rightarrow> observers w
                         | Some oid \<Rightarrow> filter (\<lambda>(i, sid). i \<noteq> oid) (observers w))" and
    h: "head ?w = head w" and f: "fresh ?w = fresh w" and
    ss: "sessions ?w = (sessions w)(sid \<mapsto> s')" and
    s': "\<not> isEnabled s'" "observer s' = None" "styleElement s' = styleElement s"
    by blast
  from inv have il: "inv_listeners w" and io: "inv_observers w" and ih: "inv_head w"
    and ifr: "inv_fresh w"
    by (simp_all add: page_inv_def)
  have 1: "inv_listeners ?w"
  proof (rule inv_listeners_sub [OF il])
    show "set (listeners ?w) \<subseteq> set (listeners w)" by (simp add: l)
    show "distinct (listeners ?w)" using il by (simp add: l inv_listeners_def distinct_removeAll)
    show "\<exists>s'. sessions ?w k = Some s'" if "sessions w k = Some t" for k t
      using that by (simp add: ss)
  qed
  have 2: "inv_observers ?w"
  proof (rule inv_observers_sub [OF io])
    show "set (observers ?w) \<subseteq> set (observers w)"
      by (auto simp: ob split: option.splits)
    show "distinct (map fst (observers ?w))"
      using io by (auto simp: ob inv_observers_def distinct_map_filter_fst split: option.splits)
    show "\<exists>s'. sessions ?w (snd entry) = Some s' \<and> observer s' = Some (fst entry) \<and> isEnabled s'"
      if "entry \<in> set (observers ?w)" "sessions w (snd entry) = Some t"
         "observer t = Some (fst entry)" "isEnabled t" for entry t
    proof (cases "snd entry = sid")
      case True
      with that s have "observer s = Some (fst entry)" by simp
      with that(1) have False by (auto simp: ob)
      then show ?thesis ..
    next
      case False
      with that show ?thesis by (simp add: ss)
    qed
  qed
  have 3: "inv_head ?w"
  proof (rule inv_head_sub [OF ih])
    show "set (head ?w) \<subseteq> set (head w)" by (simp add: h)
    show "\<exists>s'. sessions ?w k = Some s' \<and> styleElement s' = styleElement t"
      if "sessions w k = Some t" for k t
      using that s s' by (auto simp: ss)
  qed
  have 4: "inv_fresh ?w"
    using ifr s s' unfolding inv_fresh_def by (auto simp: ss f split: if_splits)
  from 1 2 3 4 show ?thesis by (simp add: page_inv_def)
qed

lemma toggle_on_throws_inv:
  assumes inv: "page_inv w" and s: "sessions w sid = Some s" "\<not> isEnabled s"
    "\<not> selector_valid w (cfg_attributeName s)"
  shows "page_inv (fst (toggleHighlighting sid w))"
proof -
  let ?w = "fst (toggleHighlighting sid w)"
  from toggle_on_throws [OF s] obtain s' where
    l: "listeners ?w = listeners w" and
    ob: "observers ?w = observers w" and
    h: "head ?w = (case styleElement s of Some e \<Rightarrow> head w | None \<Rightarrow> head w @ [fresh w])" and
    f: "fresh ?w = (case styleElement s of Some e \<Rightarrow> fresh w | None \<Rightarrow> Suc (fresh w))" and
    ss: "sessions ?w = (sessions w)(sid \<mapsto> s')" and
    s': "isEnabled s'" "observer s' = observer s"
      "styleElement s' = (case styleElement s of Some e \<Rightarrow> Some e | None \<Rightarrow> Some (fresh w))"
    by blast
  from inv have il: "inv_listeners w" and io: "inv_observers w" and ih: "inv_head w"
    and ifr: "inv_fresh w"
    by (simp_all add: page_inv_def)
  have 1: "inv_listeners ?w"
  proof (rule inv_listeners_sub [OF il])
    show "set (listeners ?w) \<subseteq> set (listeners w)" by (simp add: l)
    show "distinct (listeners ?w)" using il by (simp add: l inv_listeners_def)
    show "\<exists>s'. sessions ?w k = Some s'" if "sessions w k = Some t" for k t
      using that by (simp add: ss)
  qed
  have 2: "inv_observers ?w"
  proof (rule inv_observers_sub [OF io])
    show "set (observers ?w) \<subseteq> set (observers w)" by (simp add: ob)
    show "distinct (map fst (observers ?w))" using io by (simp add: ob inv_observers_def)
    show "\<exists>s'. sessions ?w (snd entry) = Some s' \<and> observer s' = Some (fst entry) \<and> isEnabled s'"
      if "entry \<in> set (observers ?w)" "sessions w (snd entry) = Some t"
         "observer t = Some (fst entry)" "isEnabled t" for entry t
      using that s s' by (auto simp: ss)
  qed
  have 3: "inv_head ?w"
    unfolding inv_head_def
  proof
    fix e assume e: "e \<in> set (head ?w)"
    show "\<exists>k t. sessions ?w k = Some t \<and> styleElement t = Some e"
    proof (cases "e \<in> set (head w)")
      case True
      with ih obtain k t where kt: "sessions w k = Some t" "styleElement t = Some e"
        unfolding inv_head_def by blast
      show ?thesis
      proof (cases "k = sid")
        case True
        with kt s s' show ?thesis by (auto simp: ss)
      next
        case False
        with kt show ?thesis by (auto simp: ss)
      qed
    next
      case False
      with e have "styleElement s = None" "e = fresh w"
        by (auto simp: h split: option.splits)
      with s' show ?thesis by (auto simp: ss)
    qed
  qed
  have 4: "inv_fresh ?w"
    using ifr s s' unfolding inv_fresh_def
    by (auto simp: ss f split: if_splits option.splits) (metis less_Suc_eq)+
  from 1 2 3 4 show ?thesis by (simp add: page_inv_def)
qed

lemma toggle_on_inv:
  assumes inv: "page_inv w" and s: "sessions w sid = Some s" "\<not> isEnabled s"
    "selector_valid w (cfg_attributeName s)"
  shows "page_inv (fst (toggleHighlighting sid w))"
proof -
  let ?w = "fst (toggleHighlighting sid w)"
  from toggle_on [OF s] obtain s' oid where
    l: "listeners ?w = (if (click, clickHandler sid, True) \<in> set (listeners w) then listeners w
                        else listeners w @ [(click, clickHandler sid, True)])" and
    ob: "observers ?w = observers w @ [(oid, sid)]" and
    h: "head ?w = (case styleElement s of Some e \<Rightarrow> head w | None \<Rightarrow> head w @ [fresh w])" and
    f: "fresh ?w = Suc oid" "fresh w \<le> oid" and
    cl: "classList ?w = (if marker_class \<in> set (classList w) then classList w
                         else classList w @ [marker_class])" and
    ss: "sessions ?w = (sessions w)(sid \<mapsto> s')" and
    s': "isEnabled s'" "observer s' = Some oid"
      "styleElement s' = (case styleElement s of Some e \<Rightarrow> Some e | None \<Rightarrow> Some (fresh w))"
      "styleElement s = None \<longrightarrow> fresh w < oid" and
    rest: "same_settings s s'" "snd (toggleHighlighting sid w) = None"
    by (elim exE conjE) (rule that; assumption)
  from inv have il: "inv_listeners w" and io: "inv_observers w" and ih: "inv_head w"
    and ifr: "inv_fresh w"
    by (simp_all add: page_inv_def)
  have 1: "inv_listeners ?w"
  proof (rule inv_listeners_add [OF il l])
    show "(click, clickHandler sid, True) = (keydown, keyboardHandler sid, False) \<or>
          (click, clickHandler sid, True) = (click, clickHandler sid, True)" by simp
    show "sessions ?w sid = Some s'" by (simp add: ss)
    show "\<exists>s'. sessions ?w k = Some s'" if "sessions w k = Some t" for k t
      using that by (simp add: ss)
  qed
  have none: "snd entry \<noteq> sid" if "entry \<in> set (observers w)" for entry
  proof
    assume "snd entry = sid"
    with io that s(1) have "isEnabled s" unfolding inv_observers_def by fastforce
    with s(2) show False by simp
  qed
  have 2: "inv_observers ?w"
    unfolding inv_observers_def
  proof (intro conjI ballI)
    have "oid \<notin> fst ` set (observers w)"
      using inv_observers_bound [OF io ifr] f(2) by fastforce
    with io show "distinct (map fst (observers ?w))"
      by (simp add: ob inv_observers_def)
    fix entry assume e: "entry \<in> set (observers ?w)"
    show "\<exists>t. sessions ?w (snd entry) = Some t \<and> observer t = Some (fst entry) \<and> isEnabled t"
    proof (cases "entry \<in> set (observers w)")
      case True
      with none have "snd entry \<noteq> sid" by blast
      with io True show ?thesis unfolding inv_observers_def by (simp add: ss)
    next
      case False
      with e have "entry = (oid, sid)" by (simp add: ob)
      with s' show ?thesis by (simp add: ss)
    qed
  qed
  have 3: "inv_head ?w"
    unfolding inv_head_def
  proof
    fix e assume e: "e \<in> set (head ?w)"
    show "\<exists>k t. sessions ?w k = Some t \<and> styleElement t = Some e"
    proof (cases "e \<in> set (head w)")
      case True
      with ih obtain k t where kt: "sessions w k = Some t" "styleElement t = Some e"
        unfolding inv_head_def by blast
      show ?thesis
      proof (cases "k = sid")
        case True
        with kt s s' show ?thesis by (auto simp: ss)
      next
        case False
        with kt show ?thesis by (auto simp: ss)
      qed
    next
      case False
      with e have "styleElement s = None" "e = fresh w"
        by (auto simp: h split: option.splits)
      with s' show ?thesis by (auto simp: ss)
    qed
  qed
  have 4: "inv_fresh ?w"
    unfolding inv_fresh_def
  proof (intro allI impI)
    fix k t assume kt: "sessions ?w k = Some t"
    show "k < fresh ?w \<and> (\<forall>e. styleElement t = Some e \<longrightarrow> e < fresh ?w) \<and>
          (\<forall>oid. observer t = Some oid \<longrightarrow> oid < fresh ?w)"
    proof (cases "k = sid")
      case True
      with kt have t: "t = s'" by (simp add: ss)
      from ifr s(1) have b: "sid < fresh w" "\<forall>e. styleElement s = Some e \<longrightarrow> e < fresh w"
        unfolding inv_fresh_def by blast+
      show ?thesis
        using b f s' True t by (cases "styleElement s") auto
    next
      case False
      with kt have "sessions w k = Some t" by (simp add: ss)
      with ifr have "k < fresh w" "\<forall>e. styleElement t = Some e \<longrightarrow> e < fresh w"
        "\<forall>oid. observer t = Some oid \<longrightarrow> oid < fresh w"
        unfolding inv_fresh_def by blast+
      with f show ?thesis by auto
    qed
  qed
  from 1 2 3 4 show ?thesis by (simp add: page_inv_def)
qed

lemma toggle_inv: "page_inv w \<Longrightarrow> page_inv (fst (toggleHighlighting sid w))"
proof (cases "sessions w sid")
  case None
  assume "page_inv w"
  with None show ?thesis by (simp add: toggle_no_session)
next
  case (Some s)
  assume inv: "page_inv w"
  show ?thesis
  proof (cases "isEnabled s")
    case True
    with inv Some show ?thesis by (rule toggle_off_inv)
  next
    case False
    show ?thesis
    proof (cases "selector_valid w (cfg_attributeName s)")
      case True
      with inv Some False show ?thesis by (rule toggle_on_inv)
    next
      case v: False
      with inv Some False show ?thesis by (rule toggle_on_throws_inv)
    qed
  qed
qed

lemma page_inv_fields:
  assumes "page_inv w" "listeners w' = listeners w" "observers w' = observers w"
    "head w' = head w" "sessions w' = sessions w" "fresh w' = fresh w"
  shows "page_inv w'"
  using assms
  by (simp add: page_inv_def inv_listeners_def inv_observers_def inv_head_def inv_fresh_def)

lemma processElements_inv: "page_inv w \<Longrightarrow> processElements sid w = Inr w' \<Longrightarrow> page_inv w'"
  using processElements_fields [of sid w w'] by (auto intro: page_inv_fields)

lemma call_observer_inv: "page_inv w \<Longrightarrow> page_inv (call_observer entry w)"
  by (auto simp: call_observer_def split: sum.splits intro: processElements_inv)

lemma call_clickHandler_inv: "page_inv w \<Longrightarrow> page_inv (fst (call_clickHandler sid target w))"
  by (auto simp: call_clickHandler_def split: option.splits sum.splits intro: page_inv_fields)

lemma call_listener_inv: "page_inv w \<Longrightarrow> page_inv (call_listener ev entry w)"
  by (auto simp: call_listener_def call_keyboardHandler_def toggle_inv call_clickHandler_inv
           split: event.splits event_type.splits listener.splits prod.splits)

lemma foldl_inv:
  assumes "\<And>w x. P w \<Longrightarrow> P (f w x)"
  shows "P w \<Longrightarrow> P (foldl f w xs)"
  by (induction xs arbitrary: w) (auto intro: assms)

lemma dispatch_inv: "page_inv w \<Longrightarrow> page_inv (dispatch ev w)"
proof (cases ev)
  case (KeydownEvent b k)
  assume "page_inv w"
  then show ?thesis
    unfolding dispatch_def KeydownEvent event.case
    by (rule foldl_inv [rotated]) (rule call_listener_inv)
next
  case (ClickEvent t)
  assume "page_inv w"
  then show ?thesis
    unfolding dispatch_def ClickEvent event.case
    by (rule foldl_inv [rotated]) (rule call_listener_inv)
next
  case MutationEvent
  assume "page_inv w"
  then show ?thesis
    unfolding dispatch_def MutationEvent event.case
    by (rule foldl_inv [rotated]) (rule call_observer_inv)
next
  case (DomUpdate els)
  assume "page_inv w"
  then show ?thesis
    unfolding dispatch_def DomUpdate event.case
    by (rule page_inv_fields) simp_all
qed

text \<open>The page after the session is created and its keydown listener registered.\<close>

lemma enable_page:
  "\<exists>s0. snd (enableSourceHighlighting_in config w) =
          (let w2 = addEventListener keydown (keyboardHandler (fresh w)) False
                      (w\<lparr>sessions := (sessions w)(fresh w \<mapsto> s0), fresh := Suc (fresh w)\<rparr>)
           in if isEnabled s0 then fst (toggleHighlighting (fresh w) w2) else w2) \<and>
        styleElement s0 = None \<and> observer s0 = None \<and>
        isEnabled s0 = or_default (enabledByDefault (spread (getGazeConfig w) config)) False \<and>
        cfg_styles s0 = defaultStyles (or_default (styles (spread (getGazeConfig w) config)) no_styles)"
proof -
  let ?m = "spread (getGazeConfig w) config"
  let ?s0 = "\<lparr>cfg_editor = or_default (editor ?m) (Preset (asc ''vscode'')),
              cfg_attributeName = or_default (attributeName ?m) (asc ''data-insp-path''),
              cfg_tooltipPathDisplay = or_default (tooltipPathDisplay ?m) (asc ''absolute''),
              cfg_styles = defaultStyles (or_default (styles ?m) no_styles),
              isEnabled = or_default (enabledByDefault ?m) False,
              styleElement = None, observer = None\<rparr>"
  show ?thesis
    by (rule exI [of _ ?s0])
       (simp add: enableSourceHighlighting_in_def Let_def split: prod.splits option.splits)
qed

lemma registered_inv:
  assumes inv: "page_inv w" and s0: "styleElement s0 = None" "observer s0 = None"
  defines "w2 \<equiv> addEventListener keydown (keyboardHandler (fresh w)) False
                      (w\<lparr>sessions := (sessions w)(fresh w \<mapsto> s0), fresh := Suc (fresh w)\<rparr>)"
  shows "page_inv w2"
    and "listeners w2 = listeners w @ [(keydown, keyboardHandler (fresh w), False)]"
    and "sessions w2 = (sessions w)(fresh w \<mapsto> s0)"
proof -
  from inv have il: "inv_listeners w" and io: "inv_observers w" and ih: "inv_head w"
    and ifr: "inv_fresh w"
    by (simp_all add: page_inv_def)
  have old: "k \<noteq> fresh w" if "sessions w k = Some t" for k t
    using ifr that unfolding inv_fresh_def by fastforce
  have notin: "(keydown, keyboardHandler (fresh w), False) \<notin> set (listeners w)"
  proof
    assume "(keydown, keyboardHandler (fresh w), False) \<in> set (listeners w)"
    with il obtain k t where "sessions w k = Some t"
      "(keydown, keyboardHandler (fresh w), False) = (keydown, keyboardHandler k, False) \<or>
       (keydown, keyboardHandler (fresh w), False) = (click, clickHandler k, True)"
      unfolding inv_listeners_def by blast
    with old show False by auto
  qed
  then show l: "listeners w2 = listeners w @ [(keydown, keyboardHandler (fresh w), False)]"
    by (simp add: w2_def)
  show ss: "sessions w2 = (sessions w)(fresh w \<mapsto> s0)"
    by (simp add: w2_def)
  have ob: "observers w2 = observers w" and h: "head w2 = head w" and f: "fresh w2 = Suc (fresh w)"
    by (simp_all add: w2_def)
  have keep: "sessions w2 k = Some t" if "sessions w k = Some t" for k t
    using that old [OF that] by (simp add: ss)
  have 1: "inv_listeners w2"
  proof (rule inv_listeners_add [OF il])
    show "listeners w2 = (if (keydown, keyboardHandler (fresh w), False) \<in> set (listeners w)
                          then listeners w
                          else listeners w @ [(keydown, keyboardHandler (fresh w), False)])"
      using notin by (simp add: l)
    show "(keydown, keyboardHandler (fresh w), False) = (keydown, keyboardHandler (fresh w), False) \<or>
          (keydown, keyboardHandler (fresh w), False) = (click, clickHandler (fresh w), True)" by simp
    show "sessions w2 (fresh w) = Some s0" by (simp add: ss)
    show "\<exists>s'. sessions w2 k = Some s'" if "sessions w k = Some t" for k t
      using keep [OF that] by blast
  qed
  have 2: "inv_observers w2"
  proof (rule inv_observers_sub [OF io])
    show "set (observers w2) \<subseteq> set (observers w)" by (simp add: ob)
    show "distinct (map fst (observers w2))" using io by (simp add: ob inv_observers_def)
    show "\<exists>s'. sessions w2 (snd entry) = Some s' \<and> observer s' = Some (fst entry) \<and> isEnabled s'"
      if "entry \<in> set (observers w2)" "sessions w (snd entry) = Some t"
         "observer t = Some (fst entry)" "isEnabled t" for entry t
      using keep [OF that(2)] that by blast
  qed
  have 3: "inv_head w2"
  proof (rule inv_head_sub [OF ih])
    show "set (head w2) \<subseteq> set (head w)" by (simp add: h)
    show "\<exists>s'. sessions w2 k = Some s' \<and> styleElement s' = styleElement t"
      if "sessions w k = Some t" for k t
      using keep [OF that] by blast
  qed
  have 4: "inv_fresh w2"
    unfolding inv_fresh_def
  proof (intro allI impI)
    fix k t assume kt: "sessions w2 k = Some t"
    show "k < fresh w2 \<and> (\<forall>e. styleElement t = Some e \<longrightarrow> e < fresh w2) \<and>
          (\<forall>oid. observer t = Some oid \<longrightarrow> oid < fresh w2)"
    proof (cases "k = fresh w")
      case True
      with kt s0 show ?thesis by (simp add: ss f)
    next
      case False
      with kt have "sessions w k = Some t" by (simp add: ss)
      with ifr have "k < fresh w" "\<forall>e. styleElement t = Some e \<longrightarrow> e < fresh w"
        "\<forall>oid. observer t = Some oid \<longrightarrow> oid < fresh w"
        unfolding inv_fresh_def by blast+
      then show ?thesis by (auto simp: f)
    qed
  qed
  from 1 2 3 4 show "page_inv w2" by (simp add: page_inv_def)
qed

lemma enable_inv:
  assumes "page_inv w"
  shows "page_inv (snd (enableSourceHighlighting_in config w))"
proof -
  from enable_page [of config w] obtain s0 where
    p: "snd (enableSourceHighlighting_in config w) =
          (let w2 = addEventListener keydown (keyboardHandler (fresh w)) False
                      (w\<lparr>sessions := (sessions w)(fresh w \<mapsto> s0), fresh := Suc (fresh w)\<rparr>)
           in if isEnabled s0 then fst (toggleHighlighting (fresh w) w2) else w2)"
    and s0: "styleElement s0 = None" "observer s0 = None"
    by (elim exE conjE) (rule that; assumption)
  show ?thesis
    unfolding p Let_def
    using registered_inv(1) [OF assms s0] by (simp add: toggle_inv)
qed




lemma initial_inv: "page_inv (initial_page classes els loaderConfig valid)"
  by (simp add: page_inv_def inv_listeners_def inv_observers_def inv_head_def inv_fresh_def
        initial_page_def)

lemma cleanup_fields:
  assumes "sessions w sid = Some s"
  shows "listeners (run_cleanup (session_cleanup sid) w)
           = removeAll (click, clickHandler sid, True)
               (removeAll (keydown, keyboardHandler sid, False) (listeners w))"
    and "observers (run_cleanup (session_cleanup sid) w)
           = (case observer s of None \<Rightarrow> observers w
              | Some oid \<Rightarrow> filter (\<lambda>(i, sid). i \<noteq> oid) (observers w))"
    and "head (run_cleanup (session_cleanup sid) w)
           = (case styleElement s of None \<Rightarrow> head w | Some e \<Rightarrow> removeAll e (head w))"
    and "classList (run_cleanup (session_cleanup sid) w) = removeAll marker_class (classList w)"
    and "sessions (run_cleanup (session_cleanup sid) w) = sessions w"
    and "fresh (run_cleanup (session_cleanup sid) w) = fresh w"
  using assms
  by (simp_all add: run_cleanup_def Let_def split: option.splits)

lemma cleanup_no_session:
  "sessions w sid = None \<Longrightarrow> run_cleanup (session_cleanup sid) w = w"
  by (simp add: run_cleanup_def)

lemma cleanup_inv:
  assumes inv: "page_inv w"
  shows "page_inv (run_cleanup c w)"
proof (cases c)
  case noop_cleanup
  with inv show ?thesis by (simp add: run_cleanup_def)
next
  case (session_cleanup sid)
  show ?thesis
  proof (cases "sessions w sid")
    case None
    with inv session_cleanup show ?thesis by (simp add: cleanup_no_session)
  next
    case (Some s)
    let ?w = "run_cleanup (session_cleanup sid) w"
    note f = cleanup_fields [OF Some]
    from inv have il: "inv_listeners w" and io: "inv_observers w" and ih: "inv_head w"
      and ifr: "inv_fresh w"
      by (simp_all add: page_inv_def)
    have 1: "inv_listeners ?w"
    proof (rule inv_listeners_sub [OF il])
      show "set (listeners ?w) \<subseteq> set (listeners w)" by (auto simp: f)
      show "distinct (listeners ?w)" using il by (simp add: f inv_listeners_def distinct_removeAll)
      show "\<exists>s'. sessions ?w k = Some s'" if "sessions w k = Some t" for k t
        using that by (simp add: f)
    qed
    have 2: "inv_observers ?w"
    proof (rule inv_observers_sub [OF io])
      show "set (observers ?w) \<subseteq> set (observers w)"
        by (auto simp: f split: option.splits)
      show "distinct (map fst (observers ?w))"
        using io by (auto simp: f inv_observers_def distinct_map_filter_fst split: option.splits)
      show "\<exists>s'. sessions ?w (snd entry) = Some s' \<and> observer s' = Some (fst entry) \<and> isEnabled s'"
        if "entry \<in> set (observers ?w)" "sessions w (snd entry) = Some t"
           "observer t = Some (fst entry)" "isEnabled t" for entry t
        using that by (simp add: f)
    qed
    have 3: "inv_head ?w"
    proof (rule inv_head_sub [OF ih])
      show "set (head ?w) \<subseteq> set (head w)" by (auto simp: f split: option.splits)
      show "\<exists>s'. sessions ?w k = Some s' \<and> styleElement s' = styleElement t"
        if "sessions w k = Some t" for k t
        using that by (simp add: f)
    qed
    have 4: "inv_fresh ?w"
      using ifr unfolding inv_fresh_def by (simp add: f)
    from 1 2 3 4 session_cleanup show ?thesis by (simp add: page_inv_def)
  qed
qed

lemma reachable_inv: "reachable w \<Longrightarrow> page_inv w"
  by (induction rule: reachable.induct)
     (simp_all add: initial_inv enable_inv dispatch_inv cleanup_inv)





lemma cleanup_rest:
  "page_elements (run_cleanup c w) = page_elements w"
  "opened (run_cleanup c w) = opened w"
  "GAZE_LOADER_CONFIG (run_cleanup c w) = GAZE_LOADER_CONFIG w"
  "selector_valid (run_cleanup c w) = selector_valid w"
  by (simp_all add: run_cleanup_def Let_def removeEventListener_def remove_element_def
        disconnect_def classList_remove_def split: cleanup.splits option.splits)

lemma cleanup_twice:
  "run_cleanup c (run_cleanup c w) = run_cleanup c w"
proof (cases c)
  case noop_cleanup
  then show ?thesis by (simp add: run_cleanup_def)
next
  case (session_cleanup sid)
  show ?thesis
  proof (cases "sessions w sid")
    case None
    with session_cleanup show ?thesis by (simp add: run_cleanup_def)
  next
    case (Some s)
    let ?w = "run_cleanup (session_cleanup sid) w"
    note f = cleanup_fields [OF Some]
    from Some have s': "sessions ?w sid = Some s" by (simp add: f)
    note g = cleanup_fields [OF s']
    have "run_cleanup (session_cleanup sid) ?w = ?w"
    proof (rule page.equality)
      show "listeners (run_cleanup (session_cleanup sid) ?w) = listeners ?w"
        by (simp add: g(1) f(1))
      show "observers (run_cleanup (session_cleanup sid) ?w) = observers ?w"
        by (cases "observer s") (simp_all add: g(2) f(2))
      show "head (run_cleanup (session_cleanup sid) ?w) = head ?w"
        by (cases "styleElement s") (simp_all add: g(3) f(3))
      show "classList (run_cleanup (session_cleanup sid) ?w) = classList ?w"
        by (simp add: g(4) f(4))
      show "sessions (run_cleanup (session_cleanup sid) ?w) = sessions ?w"
        by (simp add: g(5))
      show "fresh (run_cleanup (session_cleanup sid) ?w) = fresh ?w"
        by (simp add: g(6))
    qed (simp_all add: cleanup_rest)
    with session_cleanup show ?thesis by simp
  qed
qed

lemma enable_returns:
  "fst (enableSourceHighlighting_in config w) = Inr (session_cleanup (fresh w))"
proof -
  let ?m = "spread (getGazeConfig w) config"
  let ?s0 = "\<lparr>cfg_editor = or_default (editor ?m) (Preset (asc ''vscode'')),
              cfg_attributeName = or_default (attributeName ?m) (asc ''data-insp-path''),
              cfg_tooltipPathDisplay = or_default (tooltipPathDisplay ?m) (asc ''absolute''),
              cfg_styles = defaultStyles (or_default (styles ?m) no_styles),
              isEnabled = or_default (enabledByDefault ?m) False,
              styleElement = None, observer = None\<rparr>"
  let ?w2 = "addEventListener keydown (keyboardHandler (fresh w)) False
               (w\<lparr>sessions := (sessions w)(fresh w \<mapsto> ?s0), fresh := Suc (fresh w)\<rparr>)"
  show ?thesis
  proof (cases "or_default (enabledByDefault ?m) False")
    case True
    have "sessions ?w2 (fresh w) = Some ?s0" "isEnabled ?s0"
      using True by simp_all
    from toggle_off [OF this] have "snd (toggleHighlighting (fresh w) ?w2) = None"
      by blast
    with True show ?thesis
      by (auto simp add: enableSourceHighlighting_in_def Let_def split: prod.splits option.splits)
  next
    case False
    then show ?thesis
      by (simp add: enableSourceHighlighting_in_def Let_def)
  qed
qed

lemma enable_session_styles:
  "\<exists>s. sessions (snd (enableSourceHighlighting_in config w)) (fresh w) = Some s \<and>
       cfg_styles s = defaultStyles (or_default (styles (spread (getGazeConfig w) config)) no_styles)"
proof -
  from enable_page [of config w] obtain s0 where
    p: "snd (enableSourceHighlighting_in config w) =
          (let w2 = addEventListener keydown (keyboardHandler (fresh w)) False
                      (w\<lparr>sessions := (sessions w)(fresh w \<mapsto> s0), fresh := Suc (fresh w)\<rparr>)
           in if isEnabled s0 then fst (toggleHighlighting (fresh w) w2) else w2)"
    and st: "cfg_styles s0
             = defaultStyles (or_default (styles (spread (getGazeConfig w) config)) no_styles)"
    by (elim exE conjE) (rule that; assumption)
  let ?w2 = "addEventListener keydown (keyboardHandler (fresh w)) False
               (w\<lparr>sessions := (sessions w)(fresh w \<mapsto> s0), fresh := Suc (fresh w)\<rparr>)"
  have w2: "sessions ?w2 (fresh w) = Some s0" by simp
  show ?thesis
  proof (cases "isEnabled s0")
    case True
    from toggle_off [OF w2 True] obtain s' where
      "sessions (fst (toggleHighlighting (fresh w) ?w2)) = (sessions ?w2)(fresh w \<mapsto> s')"
      "same_settings s0 s'"
      by blast
    with True st show ?thesis
      unfolding p Let_def by (simp add: same_settings_def)
  next
    case False
    with st w2 show ?thesis
      unfolding p Let_def by simp
  qed
qed

text \<open>
  Whatever \<open>enabledByDefault\<close> is, the session is not enabled when
  \<open>enableSourceHighlighting\<close> returns: with the setting on, \<open>isEnabled\<close> starts as true and
  the first call of \<open>toggleHighlighting\<close> turns it off.
\<close>

lemma enable_leaves_highlighting_off:
  "\<exists>s. sessions (snd (enableSourceHighlighting_in config w)) (fresh w) = Some s \<and>
       \<not> isEnabled s"
proof -
  from enable_page [of config w] obtain s0 where
    p: "snd (enableSourceHighlighting_in config w) =
          (let w2 = addEventListener keydown (keyboardHandler (fresh w)) False
                      (w\<lparr>sessions := (sessions w)(fresh w \<mapsto> s0), fresh := Suc (fresh w)\<rparr>)
           in if isEnabled s0 then fst (toggleHighlighting (fresh w) w2) else w2)"
    by (elim exE conjE) (rule that; assumption)
  let ?w2 = "addEventListener keydown (keyboardHandler (fresh w)) False
               (w\<lparr>sessions := (sessions w)(fresh w \<mapsto> s0), fresh := Suc (fresh w)\<rparr>)"
  have w2: "sessions ?w2 (fresh w) = Some s0" by simp
  show ?thesis
  proof (cases "isEnabled s0")
    case True
    from toggle_off [OF w2 True] obtain s' where
      "sessions (fst (toggleHighlighting (fresh w) ?w2)) = (sessions ?w2)(fresh w \<mapsto> s')"
      "\<not> isEnabled s'"
      by blast
    with True show ?thesis
      unfolding p Let_def by simp
  next
    case False
    with w2 show ?thesis
      unfolding p Let_def by simp
  qed
qed

text \<open>
  C2, as the code has it: the merged configuration takes, for every key, the value of
  the call when the call has the key, and the value of the loader configuration
  otherwise; \<open>styles\<close> is such a key like the others. When the call gives a styles object,
  the styles in effect in the session are the defaults filled into that object alone:
  the styles of the loader configuration play no part.
\<close>

theorem merged_config_is_shallow:
  "spread loaderConfig config =
     \<lparr>editor = (if editor config = Absent then editor loaderConfig else editor config),
      attributeName = (if attributeName config = Absent then attributeName loaderConfig
                       else attributeName config),
      enabledByDefault = (if enabledByDefault config = Absent then enabledByDefault loaderConfig
                          else enabledByDefault config),
      tooltipPathDisplay = (if tooltipPathDisplay config = Absent
                            then tooltipPathDisplay loaderConfig else tooltipPathDisplay config),
      styles = (if styles config = Absent then styles loaderConfig else styles config),
      showInstructions = (if showInstructions config = Absent then showInstructions loaderConfig
                          else showInstructions config)\<rparr> \<and>
   (\<forall>st. styles config = Value st \<longrightarrow>
      (\<exists>s. sessions (snd (enableSourceHighlighting_in config w)) (fresh w) = Some s \<and>
           cfg_styles s = defaultStyles st))"
proof
  show "spread loaderConfig config =
     \<lparr>editor = (if editor config = Absent then editor loaderConfig else editor config),
      attributeName = (if attributeName config = Absent then attributeName loaderConfig
                       else attributeName config),
      enabledByDefault = (if enabledByDefault config = Absent then enabledByDefault loaderConfig
                          else enabledByDefault config),
      tooltipPathDisplay = (if tooltipPathDisplay config = Absent
                            then tooltipPathDisplay loaderConfig else tooltipPathDisplay config),
      styles = (if styles config = Absent then styles loaderConfig else styles config),
      showInstructions = (if showInstructions config = Absent then showInstructions loaderConfig
                          else showInstructions config)\<rparr>"
    by (simp add: spread_def spread_prop_def split: property.splits)
  show "\<forall>st. styles config = Value st \<longrightarrow>
      (\<exists>s. sessions (snd (enableSourceHighlighting_in config w)) (fresh w) = Some s \<and>
           cfg_styles s = defaultStyles st)"
  proof (intro allI impI)
    fix st assume "styles config = Value st"
    then have "or_default (styles (spread (getGazeConfig w) config)) no_styles = st"
      by (simp add: spread_def spread_prop_def or_default_def)
    with enable_session_styles [of config w]
    show "\<exists>s. sessions (snd (enableSourceHighlighting_in config w)) (fresh w) = Some s \<and>
           cfg_styles s = defaultStyles st"
      by simp
  qed
qed

theorem merged_config_is_shallow_witness:
  "styles (empty_config\<lparr>styles := Value (no_styles\<lparr>outline := Some (asc ''3px solid green'')\<rparr>)\<rparr>)
     = Value (no_styles\<lparr>outline := Some (asc ''3px solid green'')\<rparr>) \<and>
   (\<exists>s. sessions
          (snd (enableSourceHighlighting_in
             (empty_config\<lparr>styles := Value (no_styles\<lparr>outline := Some (asc ''3px solid green'')\<rparr>)\<rparr>)
             (initial_page [] []
                (Some (empty_config\<lparr>styles := Value (no_styles\<lparr>outlineOffset := Some (asc ''8px'')\<rparr>)\<rparr>))
                (\<lambda>n. True))))
          (fresh (initial_page [] []
                (Some (empty_config\<lparr>styles := Value (no_styles\<lparr>outlineOffset := Some (asc ''8px'')\<rparr>)\<rparr>))
                (\<lambda>n. True))) = Some s \<and>
        cfg_styles s = defaultStyles (no_styles\<lparr>outline := Some (asc ''3px solid green'')\<rparr>))"
proof -
  let ?c = "empty_config\<lparr>styles := Value (no_styles\<lparr>outline := Some (asc ''3px solid green'')\<rparr>)\<rparr>"
  have h: "styles ?c = Value (no_styles\<lparr>outline := Some (asc ''3px solid green'')\<rparr>)"
    by simp
  from merged_config_is_shallow [of empty_config ?c
      "initial_page [] []
         (Some (empty_config\<lparr>styles := Value (no_styles\<lparr>outlineOffset := Some (asc ''8px'')\<rparr>)\<rparr>))
         (\<lambda>n. True)"] h
  show ?thesis by blast
qed

subsection \<open>Sessions\<close>




subsection \<open>Cleanup\<close>

lemma cleanup_listeners_of:
  assumes "inv_listeners w" "sessions w sid = Some s"
  shows "listeners_of sid (run_cleanup (session_cleanup sid) w) = []"
proof -
  have "\<not> (case entry of (t, l, c) \<Rightarrow> owner l = sid)"
    if "entry \<in> set (listeners (run_cleanup (session_cleanup sid) w))" for entry
  proof -
    from that have m: "entry \<in> set (listeners w)"
      and n: "entry \<noteq> (keydown, keyboardHandler sid, False)" "entry \<noteq> (click, clickHandler sid, True)"
      by (auto simp: cleanup_fields [OF assms(2)])
    from assms(1) m obtain k where
      "entry = (keydown, keyboardHandler k, False) \<or> entry = (click, clickHandler k, True)"
      unfolding inv_listeners_def by blast
    with n show ?thesis by (auto simp: owner_def)
  qed
  then show ?thesis
    by (simp add: listeners_of_def filter_empty_conv)
qed

lemma cleanup_observers_of:
  assumes "inv_observers w" "sessions w sid = Some s"
  shows "observers_of sid (run_cleanup (session_cleanup sid) w) = []"
proof -
  have "snd entry \<noteq> sid"
    if "entry \<in> set (observers (run_cleanup (session_cleanup sid) w))" for entry
  proof
    assume o: "snd entry = sid"
    from that have m: "entry \<in> set (observers w)"
      by (auto simp: cleanup_fields [OF assms(2)] split: option.splits)
    with assms o have "observer s = Some (fst entry)"
      unfolding inv_observers_def by fastforce
    with that show False
      by (auto simp: cleanup_fields [OF assms(2)])
  qed
  then have "\<forall>entry \<in> set (observers (run_cleanup (session_cleanup sid) w)).
               \<not> (case entry of (oid, sid') \<Rightarrow> sid' = sid)"
    by (simp add: case_prod_beta)
  then show ?thesis
    by (simp add: observers_of_def filter_empty_conv)
qed

lemma cleanup_styles_of:
  assumes "sessions w sid = Some s"
  shows "styles_of sid (run_cleanup (session_cleanup sid) w) = []"
  using assms
  by (cases "styleElement s")
     (simp_all add: styles_of_def cleanup_fields [OF assms] filter_empty_conv)

lemma cleanup_only_session:
  assumes inv: "page_inv w" and s: "sessions w sid = Some s" and only: "dom (sessions w) = {sid}"
  shows "listeners (run_cleanup (session_cleanup sid) w) = []"
    and "observers (run_cleanup (session_cleanup sid) w) = []"
    and "head (run_cleanup (session_cleanup sid) w) = []"
proof -
  let ?w = "run_cleanup (session_cleanup sid) w"
  from inv have il: "inv_listeners w" and io: "inv_observers w" and ih: "inv_head w"
    by (simp_all add: page_inv_def)
  from cleanup_inv [OF inv, of "session_cleanup sid"]
  have il': "inv_listeners ?w" and io': "inv_observers ?w" and ih': "inv_head ?w"
    by (simp_all add: page_inv_def)
  have ss: "sessions ?w = sessions w" by (rule cleanup_fields(5) [OF s])
  have one: "k = sid" if "sessions w k = Some t" for k t
    using that only by auto
  show "listeners ?w = []"
  proof (rule ccontr)
    assume "listeners ?w \<noteq> []"
    then obtain entry where e: "entry \<in> set (listeners ?w)" by (cases "listeners ?w") auto
    with il' obtain k t where "sessions ?w k = Some t"
      "entry = (keydown, keyboardHandler k, False) \<or> entry = (click, clickHandler k, True)"
      unfolding inv_listeners_def by blast
    with one [of k t] have "case entry of (t, l, c) \<Rightarrow> owner l = sid"
      by (auto simp: ss owner_def)
    with e have "entry \<in> set (listeners_of sid ?w)" by (simp add: listeners_of_def)
    with cleanup_listeners_of [OF il s] show False by simp
  qed
  show "observers ?w = []"
  proof (rule ccontr)
    assume "observers ?w \<noteq> []"
    then obtain entry where e: "entry \<in> set (observers ?w)" by (cases "observers ?w") auto
    with io' obtain t where "sessions ?w (snd entry) = Some t"
      unfolding inv_observers_def by blast
    with one [of "snd entry" t] have "snd entry = sid" by (simp add: ss)
    with e have "entry \<in> set (observers_of sid ?w)" by (auto simp: observers_of_def)
    with cleanup_observers_of [OF io s] show False by simp
  qed
  show "head ?w = []"
  proof (rule ccontr)
    assume "head ?w \<noteq> []"
    then obtain e where e: "e \<in> set (head ?w)" by (cases "head ?w") auto
    with ih' obtain k t where kt: "sessions ?w k = Some t" "styleElement t = Some e"
      unfolding inv_head_def by blast
    with one [of k t] s have "styleElement s = Some e" by (simp add: ss)
    with e show False by (simp add: cleanup_fields [OF s])
  qed
qed

text \<open>
  C9: on every page that can be reached, whatever the state of the toggle, the cleanup
  function of a session can be called twice in a row: the calls are total, and the
  second changes nothing. After the first call no listener, no mutation observer and no
  style element of the session is attached, and the body does not have the marker class.
  When the session is the only one of the page, no listener, observer or style element
  is left at all. (The cleanup function that \<open>enableSourceHighlighting\<close> returns is that of
  the session it made: \<open>enable_returns\<close>.)
\<close>

theorem cleanup_is_safe:
  assumes "reachable w" and "sessions w sid \<noteq> None"
  shows "run_cleanup (session_cleanup sid) (run_cleanup (session_cleanup sid) w)
           = run_cleanup (session_cleanup sid) w \<and>
         listeners_of sid (run_cleanup (session_cleanup sid) w) = [] \<and>
         observers_of sid (run_cleanup (session_cleanup sid) w) = [] \<and>
         styles_of sid (run_cleanup (session_cleanup sid) w) = [] \<and>
         marker_class \<notin> set (classList (run_cleanup (session_cleanup sid) w)) \<and>
         (dom (sessions w) = {sid} \<longrightarrow>
            listeners (run_cleanup (session_cleanup sid) w) = [] \<and>
            observers (run_cleanup (session_cleanup sid) w) = [] \<and>
            head (run_cleanup (session_cleanup sid) w) = [])"
proof -
  from assms(2) obtain s where s: "sessions w sid = Some s" by blast
  from assms(1) have inv: "page_inv w" by (rule reachable_inv)
  then have il: "inv_listeners w" and io: "inv_observers w" by (simp_all add: page_inv_def)
  have "marker_class \<notin> set (classList (run_cleanup (session_cleanup sid) w))"
    by (simp add: cleanup_fields [OF s])
  then show ?thesis
    using cleanup_twice cleanup_listeners_of [OF il s] cleanup_observers_of [OF io s]
      cleanup_styles_of [OF s] cleanup_only_session [OF inv s]
    by simp
qed

theorem cleanup_is_safe_witness:
  "reachable toggled_page \<and> sessions toggled_page 0 \<noteq> None \<and>
   dom (sessions toggled_page) = {0} \<and>
   length (listeners toggled_page) = 2 \<and> length (observers toggled_page) = 1 \<and>
   length (head toggled_page) = 1 \<and> marker_class \<in> set (classList toggled_page) \<and>
   run_cleanup (session_cleanup 0) (run_cleanup (session_cleanup 0) toggled_page)
     = run_cleanup (session_cleanup 0) toggled_page \<and>
   listeners (run_cleanup (session_cleanup 0) toggled_page) = [] \<and>
   observers (run_cleanup (session_cleanup 0) toggled_page) = [] \<and>
   head (run_cleanup (session_cleanup 0) toggled_page) = [] \<and>
   marker_class \<notin> set (classList (run_cleanup (session_cleanup 0) toggled_page))"
proof -
  have r: "reachable toggled_page"
    unfolding toggled_page_def by (intro reachable.event reachable.enable reachable.initial)
  have s: "sessions toggled_page 0 \<noteq> None"
    by code_simp
  have d: "dom (sessions toggled_page) = {0}"
  proof -
    have none: "sessions toggled_page k = None" if "k \<noteq> 0" for k
      using that
      by (simp add: toggled_page_def dispatch_def enableSourceHighlighting_in_def Let_def
            initial_page_def call_listener_def call_keyboardHandler_def
            toggleHighlighting_def page_fields processElements_def empty_config_def
            getGazeConfig_def spread_def spread_prop_def or_default_def)
    have "k = 0" if "sessions toggled_page k \<noteq> None" for k
    proof (rule ccontr)
      assume "k \<noteq> 0"
      then have "sessions toggled_page k = None" by (rule none)
      with that show False by simp
    qed
    with s show ?thesis by (auto simp: dom_def)
  qed
  have n: "length (listeners toggled_page) = 2" "length (observers toggled_page) = 1"
    "length (head toggled_page) = 1" "marker_class \<in> set (classList toggled_page)"
    by code_simp+
  from cleanup_is_safe [OF r s] r s d n show ?thesis
    by simp
qed
section \<open>Running the loader again\<close>

subsection \<open>Where the snippet goes\<close>






















lemma visit_loc: "loc (visit_JSXOpeningElement env name rel root src filename n) = loc n"
  by (cases "loc n") (auto simp: visit_JSXOpeningElement_def Let_def)



lemma traverse_program: "program (traverse env options filename tree) = program tree"
  by (simp add: traverse_def Let_def)





subsection \<open>The example build\<close>


















end
